theory Spec2Isabelle
  imports Main "HOL-Library.Finite_Map"
begin

section \<open>Python values shared by the modules\<close>

text \<open>
  A Python \<open>str\<close> is a sequence of Unicode code points; it is modelled as the list of
  its code points. \<open>py\<close> writes an ASCII literal of the source as such a list.
\<close>

type_synonym pystr = "nat list"

definition py :: "string \<Rightarrow> pystr" where
  "py s = map of_char s"

text \<open>The exceptions of the source are values: a function that may raise returns a sum.\<close>

datatype py_error =
  KeyError | TypeError | AttributeError | ValueError | FileExistsError | FileNotFoundError
  | OSError | WebDriverException | NoSuchElementException | NotADirectoryError
  | IsADirectoryError | SameFileError

text \<open>\<open>needle in hay\<close> on two strings: \<open>needle\<close> occurs as a contiguous substring.\<close>

fun py_startswith :: "pystr \<Rightarrow> pystr \<Rightarrow> bool" where
  "py_startswith hay [] = True"
| "py_startswith [] (n # ns) = False"
| "py_startswith (h # hs) (n # ns) = (h = n \<and> py_startswith hs ns)"

fun py_in :: "pystr \<Rightarrow> pystr \<Rightarrow> bool" where
  "py_in needle [] = (needle = [])"
| "py_in needle (h # hs) = (py_startswith (h # hs) needle \<or> py_in needle hs)"

section \<open>scrap.py: content-language classification\<close>

text \<open>
  Lines 264-297 of \<open>_download_epub_from_text_page\<close>. What the browser reports about
  the page that is displayed is the record \<open>page_probe\<close>: the current URL, whether
  \<open>#maintext p.bo\<close>, \<open>#maintext p.en\<close> and \<open>#maintext p.en-trans\<close> match any element, and
  the text of every element with id \<open>maintext\<close> (the list \<open>find_elements\<close> returns).
\<close>

record page_probe =
  current_url :: pystr
  has_bo_class :: bool
  has_en_class :: bool
  has_en_trans_class :: bool
  maintext_elms :: "pystr list"

definition is_tibetan_page :: "page_probe \<Rightarrow> bool" where
  "is_tibetan_page pg = py_in (py ''/bo/'') (current_url pg)"

definition maintext_text :: "page_probe \<Rightarrow> pystr" where
  "maintext_text pg = (case maintext_elms pg of [] \<Rightarrow> [] | e # _ \<Rightarrow> e)"

definition is_tibetan_char :: "nat \<Rightarrow> bool" where
  "is_tibetan_char c = (0x0F00 \<le> c \<and> c \<le> 0x0FFF)"

definition tibetan_script_present :: "page_probe \<Rightarrow> bool" where
  "tibetan_script_present pg = list_ex is_tibetan_char (maintext_text pg)"

definition classify :: "page_probe \<Rightarrow> pystr option" where
  "classify pg =
     (if \<not> is_tibetan_page pg then
        (let has_tibetan_content = has_bo_class pg \<or> tibetan_script_present pg
         in if \<not> has_tibetan_content then Some (py ''English'') else None)
      else
        (if \<not> has_en_class pg \<and> \<not> has_en_trans_class pg then Some (py ''Tibetan'')
         else None))"

text \<open>
  The whole block runs under \<open>try\<close>: when a browser call raises (no probe is obtained),
  \<open>extra_language_dir\<close> keeps its initial value \<open>None\<close>.
\<close>

definition extra_language_dir :: "page_probe option \<Rightarrow> pystr option" where
  "extra_language_dir probe = (case probe of None \<Rightarrow> None | Some pg \<Rightarrow> classify pg)"

section \<open>json_to_folder.py\<close>

text \<open>
  The value \<open>json.load\<close> returns: \<open>None\<close>, a bool, an int, a str, a list or a dict
  (a dict as the list of its items, looked up by key).
\<close>

datatype json =
  JNull | JBool bool | JInt int | JStr pystr | JArr "json list" | JObj "(pystr \<times> json) list"

text \<open>\<open>d[k]\<close> with a string key: a missing key raises, and so does a value that is no dict.\<close>

definition subscript :: "json \<Rightarrow> pystr \<Rightarrow> py_error + json" where
  "subscript d k =
     (case d of
        JObj kvs \<Rightarrow> (case map_of kvs k of None \<Rightarrow> Inl KeyError | Some v \<Rightarrow> Inr v)
      | _ \<Rightarrow> Inl TypeError)"

text \<open>\<open>d.get(k, dflt)\<close>: only a dict has the method.\<close>

definition dict_get :: "json \<Rightarrow> pystr \<Rightarrow> json \<Rightarrow> py_error + json" where
  "dict_get d k dflt =
     (case d of
        JObj kvs \<Rightarrow> (case map_of kvs k of None \<Rightarrow> Inr dflt | Some v \<Rightarrow> Inr v)
      | _ \<Rightarrow> Inl AttributeError)"

text \<open>The truth value Python gives a value in \<open>if v:\<close>.\<close>

fun truthy :: "json \<Rightarrow> bool" where
  "truthy JNull = False"
| "truthy (JBool b) = b"
| "truthy (JInt n) = (n \<noteq> 0)"
| "truthy (JStr s) = (s \<noteq> [])"
| "truthy (JArr xs) = (xs \<noteq> [])"
| "truthy (JObj kvs) = (kvs \<noteq> [])"

text \<open>
  \<open>for verse in v\<close>: a list gives its elements, a dict its keys, a str its characters;
  nothing else is iterable.
\<close>

definition py_iter :: "json \<Rightarrow> py_error + json list" where
  "py_iter v =
     (case v of
        JArr xs \<Rightarrow> Inr xs
      | JObj kvs \<Rightarrow> Inr (map (\<lambda>kv. JStr (fst kv)) kvs)
      | JStr s \<Rightarrow> Inr (map (\<lambda>c. JStr [c]) s)
      | _ \<Rightarrow> Inl TypeError)"

text \<open>\<open>v + "\n"\<close>: defined for a str only.\<close>

definition add_newline :: "json \<Rightarrow> py_error + pystr" where
  "add_newline v = (case v of JStr s \<Rightarrow> Inr (s @ py ''\<newline>'') | _ \<Rightarrow> Inl TypeError)"

text \<open>
  \<open>f"{title}"\<close>: a str is inserted as it is; for any other value Python inserts
  \<open>str(title)\<close>, which is the parameter \<open>str_of\<close>.
\<close>

definition py_format :: "(json \<Rightarrow> pystr) \<Rightarrow> json \<Rightarrow> pystr" where
  "py_format str_of v = (case v of JStr s \<Rightarrow> s | _ \<Rightarrow> str_of v)"

text \<open>
  The loop of \<open>get_bo_text\<close> and of \<open>get_en_text\<close> (they differ in the key only):
  \<open>acc\<close> is the text built so far.
\<close>

fun verse_loop :: "pystr \<Rightarrow> json list \<Rightarrow> pystr \<Rightarrow> py_error + pystr" where
  "verse_loop lang [] acc = Inr acc"
| "verse_loop lang (verse # rest) acc =
     (case dict_get verse lang (JStr []) of
        Inl e \<Rightarrow> Inl e
      | Inr g \<Rightarrow>
          if truthy g then
            (case subscript verse lang of
               Inl e \<Rightarrow> Inl e
             | Inr x \<Rightarrow>
                 (case add_newline x of
                    Inl e \<Rightarrow> Inl e
                  | Inr line \<Rightarrow> verse_loop lang rest (acc @ line)))
          else verse_loop lang rest acc)"

definition get_bo_text :: "(json \<Rightarrow> pystr) \<Rightarrow> json \<Rightarrow> json \<Rightarrow> py_error + pystr" where
  "get_bo_text str_of data title =
     (case subscript data (py ''text'') of
        Inl e \<Rightarrow> Inl e
      | Inr t \<Rightarrow>
          (case py_iter t of
             Inl e \<Rightarrow> Inl e
           | Inr verses \<Rightarrow>
               verse_loop (py ''bo'') verses (py_format str_of title @ py ''\<newline>'')))"

definition get_en_text :: "(json \<Rightarrow> pystr) \<Rightarrow> json \<Rightarrow> json \<Rightarrow> py_error + pystr" where
  "get_en_text str_of data title =
     (case subscript data (py ''text'') of
        Inl e \<Rightarrow> Inl e
      | Inr t \<Rightarrow>
          (case py_iter t of
             Inl e \<Rightarrow> Inl e
           | Inr verses \<Rightarrow>
               verse_loop (py ''en'') verses (py_format str_of title @ py ''\<newline>'')))"

text \<open>
  The output tree: a folder is named by the operand given to \<open>output_dir / \<cdot>\<close>, and
  holds its files by name. \<open>mkdir(parents=True, exist_ok=True)\<close> keeps a folder that is
  there; \<open>open(..., "w")\<close> replaces the file's content. The operand of \<open>/\<close> has to be
  a str. The refusals of the operating system (\<open>OSError\<close> from \<open>mkdir\<close> or \<open>open\<close>: a
  name the file system does not take, a regular file in the place of the folder, no
  permission) are outside this model of the tree.
\<close>

type_synonym folder_tree = "pystr \<rightharpoonup> (pystr \<rightharpoonup> pystr)"

definition folder_files :: "folder_tree \<Rightarrow> pystr \<Rightarrow> (pystr \<rightharpoonup> pystr)" where
  "folder_files tree d = (case tree d of None \<Rightarrow> Map.empty | Some fs \<Rightarrow> fs)"

definition create_folder :: "folder_tree \<Rightarrow> json \<Rightarrow> pystr \<Rightarrow> pystr \<Rightarrow> py_error + folder_tree" where
  "create_folder tree bo_title bo_text en_text =
     (case bo_title of
        JStr t \<Rightarrow>
          Inr (tree(t \<mapsto> (folder_files tree t)(py ''bo.txt'' \<mapsto> bo_text, py ''en.txt'' \<mapsto> en_text)))
      | _ \<Rightarrow> Inl TypeError)"

definition json_to_folder :: "(json \<Rightarrow> pystr) \<Rightarrow> json \<Rightarrow> folder_tree \<Rightarrow> py_error + folder_tree" where
  "json_to_folder str_of data tree =
     (case subscript data (py ''title'') of
        Inl e \<Rightarrow> Inl e
      | Inr titles \<Rightarrow>
     (case subscript titles (py ''bo'') of
        Inl e \<Rightarrow> Inl e
      | Inr bo_title \<Rightarrow>
     (case subscript titles (py ''en'') of
        Inl e \<Rightarrow> Inl e
      | Inr en_title \<Rightarrow>
     (case get_bo_text str_of data bo_title of
        Inl e \<Rightarrow> Inl e
      | Inr bo_text \<Rightarrow>
     (case get_en_text str_of data en_title of
        Inl e \<Rightarrow> Inl e
      | Inr en_text \<Rightarrow> create_folder tree bo_title bo_text en_text)))))"

text \<open>The record of the scenario: title T / E, verses (a, b) and (c).\<close>

definition scenario_record :: json where
  "scenario_record =
     JObj [(py ''title'', JObj [(py ''bo'', JStr (py ''T'')), (py ''en'', JStr (py ''E''))]),
           (py ''text'', JArr [JObj [(py ''bo'', JStr (py ''a'')), (py ''en'', JStr (py ''b''))],
                              JObj [(py ''bo'', JStr (py ''c''))]])]"

section \<open>scrap.py: link collection\<close>

text \<open>
  \<open>str.strip()\<close> removes the leading and the trailing whitespace. The whitespace
  characters of Python 3 (\<open>str.isspace\<close>, general category Zs or bidirectional class
  WS, B or S) are these code points.
\<close>

definition py_isspace :: "nat \<Rightarrow> bool" where
  "py_isspace c =
     ((0x09 \<le> c \<and> c \<le> 0x0D) \<or> (0x1C \<le> c \<and> c \<le> 0x20) \<or> c = 0x85 \<or> c = 0xA0
      \<or> c = 0x1680 \<or> (0x2000 \<le> c \<and> c \<le> 0x200A) \<or> c = 0x2028 \<or> c = 0x2029
      \<or> c = 0x202F \<or> c = 0x205F \<or> c = 0x3000)"

definition py_strip :: "pystr \<Rightarrow> pystr" where
  "py_strip s = rev (dropWhile py_isspace (rev (dropWhile py_isspace s)))"

text \<open>
  \<open>_collect_text_links\<close>, lines 134-159. The page is the list of its
  \<open>details.accordion\<close> elements; of each the model keeps the text of its \<open>summary\<close>
  (\<open>None\<close> when the element has no summary: \<open>find_element\<close> raises) and the \<open>href\<close>
  attribute of each of its \<open>div.text-card a.title\<close> anchors (\<open>None\<close> when the
  attribute is missing). \<open>urljoin\<close> is the library function, a parameter.
\<close>

record section_elem =
  summary_text :: "pystr option"
  anchor_hrefs :: "pystr option list"

text \<open>The two variables of the loop: the dict \<open>url_to_subs\<close> and the list \<open>order\<close>.\<close>

type_synonym collect_state = "(pystr \<rightharpoonup> pystr list) \<times> pystr list"

text \<open>Lines 148-152: one anchor with a resolved URL.\<close>

definition record_link :: "pystr \<Rightarrow> pystr \<Rightarrow> collect_state \<Rightarrow> py_error + collect_state" where
  "record_link subheading full_url st =
     (let (url_to_subs, order) = st;
          (url_to_subs1, order1) =
            (if url_to_subs full_url = None
             then (url_to_subs(full_url \<mapsto> []), order @ [full_url])
             else (url_to_subs, order))
      in case url_to_subs1 full_url of
           None \<Rightarrow> Inl KeyError
         | Some subs \<Rightarrow>
             if subheading \<notin> set subs
             then Inr (url_to_subs1(full_url \<mapsto> subs @ [subheading]), order1)
             else Inr (url_to_subs1, order1))"

fun anchors_loop ::
  "(pystr \<Rightarrow> pystr \<Rightarrow> pystr) \<Rightarrow> pystr \<Rightarrow> pystr \<Rightarrow> pystr option list \<Rightarrow> collect_state
    \<Rightarrow> py_error + collect_state" where
  "anchors_loop urljoin base_url subheading [] st = Inr st"
| "anchors_loop urljoin base_url subheading (a # rest) st =
     (case a of
        None \<Rightarrow> anchors_loop urljoin base_url subheading rest st
      | Some href \<Rightarrow>
          if href = [] then anchors_loop urljoin base_url subheading rest st
          else (case record_link subheading (urljoin base_url href) st of
                  Inl e \<Rightarrow> Inl e
                | Inr st' \<Rightarrow> anchors_loop urljoin base_url subheading rest st'))"

fun details_loop ::
  "(pystr \<Rightarrow> pystr \<Rightarrow> pystr) \<Rightarrow> pystr \<Rightarrow> section_elem list \<Rightarrow> collect_state
    \<Rightarrow> py_error + collect_state" where
  "details_loop urljoin base_url [] st = Inr st"
| "details_loop urljoin base_url (d # rest) st =
     (case summary_text d of
        None \<Rightarrow> Inl NoSuchElementException
      | Some t \<Rightarrow>
          (case anchors_loop urljoin base_url (py_strip t) (anchor_hrefs d) st of
             Inl e \<Rightarrow> Inl e
           | Inr st' \<Rightarrow> details_loop urljoin base_url rest st'))"

text \<open>Line 154: \<open>[(u, url_to_subs[u]) for u in order]\<close>.\<close>

fun grouped_of ::
  "(pystr \<rightharpoonup> pystr list) \<Rightarrow> pystr list \<Rightarrow> py_error + (pystr \<times> pystr list) list" where
  "grouped_of url_to_subs [] = Inr []"
| "grouped_of url_to_subs (u # us) =
     (case url_to_subs u of
        None \<Rightarrow> Inl KeyError
      | Some subs \<Rightarrow>
          (case grouped_of url_to_subs us of
             Inl e \<Rightarrow> Inl e
           | Inr g \<Rightarrow> Inr ((u, subs) # g)))"

definition collect_text_links ::
  "(pystr \<Rightarrow> pystr \<Rightarrow> pystr) \<Rightarrow> pystr \<Rightarrow> section_elem list
    \<Rightarrow> py_error + (pystr \<times> pystr list) list" where
  "collect_text_links urljoin base_url details =
     (case details_loop urljoin base_url details (Map.empty, []) of
        Inl e \<Rightarrow> Inl e
      | Inr (url_to_subs, order) \<Rightarrow> grouped_of url_to_subs order)"

subsection \<open>What the specification asks of link collection\<close>

text \<open>
  The (section label, URL) pairs the page gives, in reading order: one pair for each
  anchor that has a non-empty \<open>href\<close>.
\<close>

definition section_pairs ::
  "(pystr \<Rightarrow> pystr \<Rightarrow> pystr) \<Rightarrow> pystr \<Rightarrow> pystr \<Rightarrow> pystr option list \<Rightarrow> (pystr \<times> pystr) list" where
  "section_pairs urljoin base_url t hrefs =
     concat (map (\<lambda>a. case a of
                        None \<Rightarrow> []
                      | Some href \<Rightarrow>
                          if href = [] then [] else [(py_strip t, urljoin base_url href)]) hrefs)"

fun page_pairs ::
  "(pystr \<Rightarrow> pystr \<Rightarrow> pystr) \<Rightarrow> pystr \<Rightarrow> section_elem list \<Rightarrow> (pystr \<times> pystr) list" where
  "page_pairs urljoin base_url [] = []"
| "page_pairs urljoin base_url (d # rest) =
     (case summary_text d of
        None \<Rightarrow> []
      | Some t \<Rightarrow> section_pairs urljoin base_url t (anchor_hrefs d))
     @ page_pairs urljoin base_url rest"

text \<open>
  The specification in its own words: the elements of a list in first-seen order, each
  once; the labels of a URL are the distinct labels it appeared under, in order of
  appearance; the result lists the URLs in first-seen order, each with its labels.
\<close>

fun first_seen :: "'a list \<Rightarrow> 'a list" where
  "first_seen [] = []"
| "first_seen (x # xs) = x # first_seen (filter (\<lambda>y. y \<noteq> x) xs)"

definition labels_of :: "(pystr \<times> pystr) list \<Rightarrow> pystr \<Rightarrow> pystr list" where
  "labels_of pairs u = first_seen (map fst (filter (\<lambda>p. snd p = u) pairs))"

definition links_by_spec :: "(pystr \<times> pystr) list \<Rightarrow> (pystr \<times> pystr list) list" where
  "links_by_spec pairs = map (\<lambda>u. (u, labels_of pairs u)) (first_seen (map snd pairs))"

text \<open>The state of the loop after the pairs \<open>pairs\<close> have been read.\<close>

definition state_of :: "(pystr \<times> pystr) list \<Rightarrow> collect_state" where
  "state_of pairs =
     ((\<lambda>u. if u \<in> snd ` set pairs then Some (labels_of pairs u) else None),
      first_seen (map snd pairs))"

text \<open>The landing page of the scenario, with the anchors \<open>A\<close> and \<open>B\<close>.\<close>

definition scenario_page :: "pystr \<Rightarrow> pystr \<Rightarrow> section_elem list" where
  "scenario_page A B =
     [\<lparr>summary_text = Some (py ''Dedications''), anchor_hrefs = [Some A]\<rparr>,
      \<lparr>summary_text = Some (py ''Aspirations''), anchor_hrefs = [Some A, Some B]\<rparr>]"

section \<open>scrap.py: paths and the file system\<close>

text \<open>
  A \<open>pathlib.Path\<close> is absolute here (\<open>output_dir\<close> is made absolute by the
  constructor): the list of its components below the root, each a non-empty string
  without a separator. \<open>[]\<close> is the root, whose \<open>name\<close> is the empty string. The file
  system maps the paths that exist to a regular file with its content or to a
  directory; it holds finitely many of them.
\<close>

type_synonym path = "pystr list"

type_synonym bytes = "nat list"

datatype node = File bytes | Dir

type_synonym filesystem = "(path, node) fmap"

definition path_exists :: "filesystem \<Rightarrow> path \<Rightarrow> bool" where
  "path_exists fs p = (p = [] \<or> fmlookup fs p \<noteq> None)"

definition path_name :: "path \<Rightarrow> pystr" where
  "path_name p = (if p = [] then [] else last p)"

text \<open>\<open>s.rfind(c)\<close>: the index of the last occurrence, \<open>None\<close> standing for \<open>-1\<close>.\<close>

definition py_rfind :: "nat \<Rightarrow> pystr \<Rightarrow> nat option" where
  "py_rfind c s =
     (let j = length (takeWhile (\<lambda>x. x \<noteq> c) (rev s))
      in if j < length s then Some (length s - 1 - j) else None)"

text \<open>
  \<open>Path.suffix\<close> and \<open>Path.stem\<close> as pathlib defines them on the name: with
  \<open>i = name.rfind('.')\<close>, the name is split at \<open>i\<close> when \<open>0 < i < len(name) - 1\<close>, and has
  no suffix otherwise.
\<close>

definition py_suffix :: "pystr \<Rightarrow> pystr" where
  "py_suffix nm =
     (case py_rfind 46 nm of
        None \<Rightarrow> []
      | Some i \<Rightarrow> if 0 < i \<and> i < length nm - 1 then drop i nm else [])"

definition py_stem :: "pystr \<Rightarrow> pystr" where
  "py_stem nm =
     (case py_rfind 46 nm of
        None \<Rightarrow> nm
      | Some i \<Rightarrow> if 0 < i \<and> i < length nm - 1 then take i nm else nm)"

text \<open>\<open>str(n)\<close> of a natural number: its decimal digits. \<open>nat_of_str\<close> reads them back.\<close>

function str_nat :: "nat \<Rightarrow> pystr" where
  "str_nat n = (if n < 10 then [48 + n] else str_nat (n div 10) @ [48 + n mod 10])"
  by pat_completeness auto
termination
  by (relation "measure id") auto

declare str_nat.simps [simp del]

definition nat_of_str :: "pystr \<Rightarrow> nat" where
  "nat_of_str s = foldl (\<lambda>acc d. 10 * acc + (d - 48)) 0 s"

text \<open>
  \<open>path.with_name(name)\<close> raises \<open>ValueError\<close> on a path that has no name. (It also
  rejects a new name that is empty, is \<open>.\<close> or holds a separator; the name built below
  from the components of an existing name is none of these.)
\<close>

definition with_name :: "path \<Rightarrow> pystr \<Rightarrow> py_error + path" where
  "with_name p nm = (if path_name p = [] then Inl ValueError else Inr (butlast p @ [nm]))"

text \<open>The f-string \<open>f"{stem} ({n}){ext}"\<close>.\<close>

definition numbered_name :: "pystr \<Rightarrow> pystr \<Rightarrow> nat \<Rightarrow> pystr" where
  "numbered_name stem ext n = stem @ py '' ('' @ str_nat n @ py '')'' @ ext"

text \<open>
  The candidates from \<open>n\<close> on that exist: there are finitely many, and the loop of
  \<open>_unique_path\<close> leaves one behind at each turn.
\<close>

definition taken :: "filesystem \<Rightarrow> path \<Rightarrow> pystr \<Rightarrow> pystr \<Rightarrow> nat \<Rightarrow> nat set" where
  "taken fs p stem ext n =
     {m. n \<le> m \<and> path_exists fs (butlast p @ [numbered_name stem ext m])}"

text \<open>\<open>_unique_path\<close>, lines 215-225: the \<open>while True\<close> loop, entered with \<open>n = 1\<close>.\<close>

function unique_loop :: "filesystem \<Rightarrow> path \<Rightarrow> pystr \<Rightarrow> pystr \<Rightarrow> nat \<Rightarrow> py_error + path" where
  "unique_loop fs p stem ext n =
     (case with_name p (numbered_name stem ext n) of
        Inl e \<Rightarrow> Inl e
      | Inr candidate \<Rightarrow>
          if \<not> path_exists fs candidate then Inr candidate
          else unique_loop fs p stem ext (n + 1))"
  by pat_completeness auto
termination
proof (relation "measure (\<lambda>(fs, p, stem, ext, n). card (taken fs p stem ext n))")
  show "wf (measure (\<lambda>(fs, p, stem, ext, n). card (taken fs p stem ext n)))"
    by simp
next
  fix fs p stem ext n candidate
  assume w: "with_name p (numbered_name stem ext n) = Inr candidate"
    and e: "\<not> \<not> path_exists fs candidate"
  let ?f = "\<lambda>m. butlast p @ [numbered_name stem ext m]"
  have readback: "nat_of_str (str_nat k) = k" for k
  proof (induction k rule: str_nat.induct)
    case (1 k)
    show ?case
    proof (cases "k < 10")
      case True
      then show ?thesis
        by (subst str_nat.simps) (simp add: nat_of_str_def)
    next
      case False
      with 1 have "nat_of_str (str_nat (k div 10)) = k div 10"
        by simp
      with False show ?thesis
        by (subst str_nat.simps) (simp add: nat_of_str_def)
    qed
  qed
  have "str_nat a = str_nat b \<Longrightarrow> a = b" for a b
    using readback by metis
  then have inj: "inj ?f"
    by (auto simp: inj_def numbered_name_def)
  have fin: "finite (taken fs p stem ext k)" for k
  proof -
    have "taken fs p stem ext k \<subseteq> ?f -` (fmdom' fs)"
      by (auto simp: taken_def path_exists_def fmdom'I)
    moreover have "finite (?f -` (fmdom' fs))"
      using inj by (simp add: finite_vimageI)
    ultimately show ?thesis
      by (rule finite_subset)
  qed
  from w have c: "candidate = ?f n"
    by (auto simp: with_name_def split: if_splits)
  have "n \<in> taken fs p stem ext n"
    using e c by (simp add: taken_def)
  moreover have "n \<notin> taken fs p stem ext (n + 1)"
    by (simp add: taken_def)
  moreover have "taken fs p stem ext (n + 1) \<subseteq> taken fs p stem ext n"
    by (auto simp: taken_def)
  ultimately have "taken fs p stem ext (n + 1) \<subset> taken fs p stem ext n"
    by blast
  then have "card (taken fs p stem ext (n + 1)) < card (taken fs p stem ext n)"
    by (rule psubset_card_mono [OF fin])
  then show "((fs, p, stem, ext, n + 1), (fs, p, stem, ext, n))
      \<in> measure (\<lambda>(fs, p, stem, ext, n). card (taken fs p stem ext n))"
    by simp
qed

declare unique_loop.simps [simp del]

definition unique_path :: "filesystem \<Rightarrow> path \<Rightarrow> py_error + path" where
  "unique_path fs p =
     (if \<not> path_exists fs p then Inr p
      else unique_loop fs p (py_stem (path_name p)) (py_suffix (path_name p)) 1)"

text \<open>The \<open>n\<close>-th candidate for \<open>p\<close>: \<open>p\<close> with \<open> (n)\<close> put between stem and suffix of its name.\<close>

definition numbered :: "path \<Rightarrow> nat \<Rightarrow> path" where
  "numbered p n =
     butlast p @ [numbered_name (py_stem (path_name p)) (py_suffix (path_name p)) n]"

text \<open>A sink that holds \<open>x.epub\<close> and \<open>x (1).epub\<close>.\<close>

definition crowded_sink :: filesystem where
  "crowded_sink =
     fmupd [py ''out'', py ''x.epub''] (File [1, 2, 3])
       (fmupd [py ''out'', py ''x (1).epub''] (File [4, 5])
         (fmupd [py ''out''] Dir fmempty))"

section \<open>scrap.py: topic-label sanitization\<close>

text \<open>
  The Unicode tables of the interpreter are a parameter where they are consulted
  outside ASCII: \<open>str.isalnum\<close> of a code point from 128 on, and
  \<open>unicodedata.normalize("NFC", s)\<close> and \<open>s.lower()\<close> of a string that holds such a code
  point. On ASCII the three are fixed: the alphanumerics are the digits and the
  letters, a string is its own NFC form, and \<open>lower\<close> maps \<open>A-Z\<close> to \<open>a-z\<close>.
\<close>

record unicode_tables =
  isalnum_tab :: "nat \<Rightarrow> bool"
  nfc_tab :: "pystr \<Rightarrow> pystr"
  lower_tab :: "pystr \<Rightarrow> pystr"

definition is_ascii :: "pystr \<Rightarrow> bool" where
  "is_ascii s = list_all (\<lambda>c. c < 128) s"

definition py_isalnum :: "unicode_tables \<Rightarrow> nat \<Rightarrow> bool" where
  "py_isalnum tabs c =
     (if c < 128 then (48 \<le> c \<and> c \<le> 57) \<or> (65 \<le> c \<and> c \<le> 90) \<or> (97 \<le> c \<and> c \<le> 122)
      else isalnum_tab tabs c)"

definition py_nfc :: "unicode_tables \<Rightarrow> pystr \<Rightarrow> pystr" where
  "py_nfc tabs s = (if is_ascii s then s else nfc_tab tabs s)"

definition py_lower :: "unicode_tables \<Rightarrow> pystr \<Rightarrow> pystr" where
  "py_lower tabs s =
     (if is_ascii s then map (\<lambda>c. if 65 \<le> c \<and> c \<le> 90 then c + 32 else c) s
      else lower_tab tabs s)"

text \<open>
  Lines 352-358, and again lines 480-486: the characters of the label that are
  alphanumeric, a space, a hyphen, an underscore or in U+0F00..U+0FFF, stripped,
  normalised to NFC; \<open>Misc\<close> when nothing is left.
\<close>

definition keep_char :: "unicode_tables \<Rightarrow> nat \<Rightarrow> bool" where
  "keep_char tabs c = (py_isalnum tabs c \<or> c = 32 \<or> c = 45 \<or> c = 95 \<or> is_tibetan_char c)"

definition sanitize :: "unicode_tables \<Rightarrow> pystr \<Rightarrow> pystr" where
  "sanitize tabs label =
     (let safe = py_strip (filter (keep_char tabs) label);
          safe = py_nfc tabs safe
      in if safe = [] then py ''Misc'' else safe)"

text \<open>
  An excerpt of the Unicode Character Database, enough for strings over ASCII and the
  three code points U+0915 DEVANAGARI LETTER KA (category Lo), U+093C DEVANAGARI SIGN
  NUKTA (category Mn, not alphanumeric) and U+0958 DEVANAGARI LETTER QA (category Lo).
  U+0958 has the canonical decomposition U+0915 U+093C and is excluded from
  composition, so that NFC replaces it by the two and leaves the two as they are.
\<close>

definition nfc_devanagari :: "pystr \<Rightarrow> pystr" where
  "nfc_devanagari s = concat (map (\<lambda>c. if c = 0x0958 then [0x0915, 0x093C] else [c]) s)"

definition devanagari_tables :: unicode_tables where
  "devanagari_tables =
     \<lparr>isalnum_tab = (\<lambda>c. c = 0x0915 \<or> c = 0x0958),
      nfc_tab = nfc_devanagari,
      lower_tab = (\<lambda>s. s)\<rparr>"

section \<open>scrap.py: the completion poller\<close>

text \<open>
  \<open>_wait_for_download\<close>, lines 191-213. Time is counted in polling intervals: the
  clock reads a natural number, \<open>time.sleep(0.5)\<close> advances it by one and nothing else
  takes time, and the timeout is given in the same unit (240 for the default of 120
  seconds). What the poller sees of the sink directory at a clock reading is a
  \<open>snapshot\<close>: the paths \<open>glob("*")\<close> enumerates, the \<open>st_mtime\<close> and \<open>st_size\<close> that
  \<open>stat()\<close> reports for a path (\<open>None\<close> when it raises \<open>FileNotFoundError\<close>), and what
  \<open>exists()\<close> answers. The sink is a function from clock readings to snapshots.
\<close>

record snapshot =
  listing :: "path list"
  st_mtime :: "path \<Rightarrow> nat option"
  st_size :: "path \<Rightarrow> nat option"
  present :: "path \<Rightarrow> bool"

text \<open>\<open>p.suffix.lower() == ext\<close>.\<close>

definition has_suffix :: "unicode_tables \<Rightarrow> pystr \<Rightarrow> path \<Rightarrow> bool" where
  "has_suffix tabs ext p = (py_lower tabs (py_suffix (path_name p)) = ext)"

text \<open>
  \<open>max(epubs, key=lambda p: p.stat().st_mtime)\<close>: every key is computed, so a file
  that has vanished raises; among equal keys the first path wins. First is meant in
  the order in which \<open>list(current - before_set)\<close> yields the new paths, an order that
  follows the hashes of the paths: \<open>listing\<close> gives the new paths in that order (the
  order of a listing has no other use), so that either of two files with the same
  \<open>st_mtime\<close> may be the one returned.
\<close>

fun max_loop :: "snapshot \<Rightarrow> path list \<Rightarrow> path \<Rightarrow> nat \<Rightarrow> py_error + path" where
  "max_loop snap [] best k = Inr best"
| "max_loop snap (p # ps) best k =
     (case st_mtime snap p of
        None \<Rightarrow> Inl FileNotFoundError
      | Some m \<Rightarrow> if k < m then max_loop snap ps p m else max_loop snap ps best k)"

definition max_by_mtime :: "snapshot \<Rightarrow> path list \<Rightarrow> py_error + path" where
  "max_by_mtime snap ps =
     (case ps of
        [] \<Rightarrow> Inl ValueError
      | p # rest \<Rightarrow>
          (case st_mtime snap p of
             None \<Rightarrow> Inl FileNotFoundError
           | Some m \<Rightarrow> max_loop snap rest p m))"

text \<open>The variables of one turn of the loop, computed from the snapshot.\<close>

definition new_epubs :: "unicode_tables \<Rightarrow> snapshot \<Rightarrow> path list \<Rightarrow> path list" where
  "new_epubs tabs snap before_set =
     filter (has_suffix tabs (py ''.epub''))
       (filter (\<lambda>p. p \<notin> set before_set) (listing snap))"

definition temp_present :: "unicode_tables \<Rightarrow> snapshot \<Rightarrow> bool" where
  "temp_present tabs snap = list_ex (has_suffix tabs (py ''.crdownload'')) (listing snap)"

text \<open>
  The loop at clock reading \<open>now\<close>, started at \<open>start\<close>. The result is the path
  returned, \<open>None\<close> for the timeout, or the exception that escapes.
\<close>

function wait_loop ::
  "unicode_tables \<Rightarrow> (nat \<Rightarrow> snapshot) \<Rightarrow> path list \<Rightarrow> nat \<Rightarrow> nat \<Rightarrow> nat
    \<Rightarrow> py_error + path option" where
  "wait_loop tabs sink before_set timeout start now =
     (if \<not> now - start < timeout then Inr None
      else
        let snap = sink now;
            epubs = new_epubs tabs snap before_set
        in if epubs \<noteq> [] \<and> \<not> temp_present tabs snap then
             (case max_by_mtime snap epubs of
                Inl e \<Rightarrow> Inl e
              | Inr target \<Rightarrow>
                  (case st_size snap target of
                     None \<Rightarrow> wait_loop tabs sink before_set timeout start (now + 1)
                   | Some size1 \<Rightarrow>
                       if present (sink (now + 1)) target then
                         (case st_size (sink (now + 1)) target of
                            None \<Rightarrow> wait_loop tabs sink before_set timeout start (now + 2)
                          | Some size2 \<Rightarrow>
                              if size2 = size1 then Inr (Some target)
                              else wait_loop tabs sink before_set timeout start (now + 2))
                       else wait_loop tabs sink before_set timeout start (now + 2)))
           else wait_loop tabs sink before_set timeout start (now + 1))"
  by pat_completeness auto
termination
  by (relation "measure (\<lambda>(tabs, sink, before_set, timeout, start, now). start + timeout - now)")
    auto

declare wait_loop.simps [simp del]

definition wait_for_download ::
  "unicode_tables \<Rightarrow> (nat \<Rightarrow> snapshot) \<Rightarrow> path list \<Rightarrow> nat \<Rightarrow> nat \<Rightarrow> py_error + path option" where
  "wait_for_download tabs sink before_set timeout start =
     wait_loop tabs sink before_set timeout start start"

text \<open>
  What a turn of the loop must see to go on to the size check, and what the size
  check must see to return \<open>p\<close>.
\<close>

definition ready :: "unicode_tables \<Rightarrow> snapshot \<Rightarrow> path list \<Rightarrow> bool" where
  "ready tabs snap before_set =
     (new_epubs tabs snap before_set \<noteq> [] \<and> \<not> temp_present tabs snap)"

definition stable :: "snapshot \<Rightarrow> snapshot \<Rightarrow> path \<Rightarrow> bool" where
  "stable snap snap' p =
     (case st_size snap p of
        None \<Rightarrow> False
      | Some size1 \<Rightarrow> present snap' p \<and> st_size snap' p = Some size1)"

text \<open>
  A sink in which a download is in progress for two intervals and then complete, one
  in which it never completes, and the snapshots they are made of.
\<close>

definition snap_of :: "(pystr \<times> nat) list \<Rightarrow> snapshot" where
  "snap_of files =
     \<lparr>listing = map (\<lambda>f. [py ''out'', fst f]) files,
      st_mtime = (\<lambda>p. if p \<in> set (map (\<lambda>f. [py ''out'', fst f]) files) then Some 7 else None),
      st_size = map_of (map (\<lambda>f. ([py ''out'', fst f], snd f)) files),
      present = (\<lambda>p. p \<in> set (map (\<lambda>f. [py ''out'', fst f]) files))\<rparr>"

definition finishing_sink :: "nat \<Rightarrow> snapshot" where
  "finishing_sink t =
     (if t < 2 then snap_of [(py ''old.epub'', 10), (py ''a.epub'', 3), (py ''a.epub.crdownload'', 3)]
      else snap_of [(py ''old.epub'', 10), (py ''a.epub'', 5)])"

definition stuck_sink :: "nat \<Rightarrow> snapshot" where
  "stuck_sink t = snap_of [(py ''old.epub'', 10), (py ''a.epub'', 3), (py ''a.epub.crdownload'', 3)]"

section \<open>scrap.py: placement and the run coordinator\<close>

text \<open>
  The file-system calls of the placement code. \<open>d / name\<close> is used with a \<open>name\<close> that
  is one component (a sanitized label, the name of a path, \<open>English\<close>, \<open>Tibetan\<close>);
  joining the empty string gives the directory itself.
\<close>

definition path_div :: "path \<Rightarrow> pystr \<Rightarrow> path" where
  "path_div d nm = (if nm = [] then d else d @ [nm])"

definition is_dir :: "filesystem \<Rightarrow> path \<Rightarrow> bool" where
  "is_dir fs p = (p = [] \<or> fmlookup fs p = Some Dir)"

text \<open>
  \<open>d.mkdir(parents=True, exist_ok=True)\<close>: the missing ancestors and \<open>d\<close> are created;
  a directory that is there is kept; a regular file in the way raises
  (\<open>FileExistsError\<close> at \<open>d\<close> itself, \<open>NotADirectoryError\<close> above it).
\<close>

fun mkdirs :: "filesystem \<Rightarrow> path list \<Rightarrow> py_error + filesystem" where
  "mkdirs fs [] = Inr fs"
| "mkdirs fs (d # ds) =
     (case fmlookup fs d of
        None \<Rightarrow> mkdirs (fmupd d Dir fs) ds
      | Some Dir \<Rightarrow> mkdirs fs ds
      | Some (File b) \<Rightarrow> Inl (if ds = [] then FileExistsError else NotADirectoryError))"

definition mkdir_parents :: "filesystem \<Rightarrow> path \<Rightarrow> py_error + filesystem" where
  "mkdir_parents fs d = mkdirs fs (map (\<lambda>k. take k d) [1..<Suc (length d)])"

text \<open>
  \<open>src.replace(dst)\<close> for a regular file \<open>src\<close>: the file is renamed, replacing a
  regular file at \<open>dst\<close>. (Renaming a directory is not part of the model: it is an
  error here.)
\<close>

definition replace_file :: "filesystem \<Rightarrow> path \<Rightarrow> path \<Rightarrow> py_error + filesystem" where
  "replace_file fs src dst =
     (case fmlookup fs src of
        None \<Rightarrow> Inl FileNotFoundError
      | Some Dir \<Rightarrow> Inl OSError
      | Some (File b) \<Rightarrow>
          if dst = [] \<or> fmlookup fs dst = Some Dir then Inl IsADirectoryError
          else if \<not> is_dir fs (butlast dst) then Inl FileNotFoundError
          else Inr (fmupd dst (File b) (fmdrop src fs)))"

text \<open>
  \<open>shutil.copy2(src, dst)\<close>: the content of the regular file \<open>src\<close> is written to
  \<open>dst\<close>, or into \<open>dst\<close> under the name of \<open>src\<close> when \<open>dst\<close> is a directory.
\<close>

definition copy2 :: "filesystem \<Rightarrow> path \<Rightarrow> path \<Rightarrow> py_error + filesystem" where
  "copy2 fs src dst =
     (case fmlookup fs src of
        None \<Rightarrow> Inl FileNotFoundError
      | Some Dir \<Rightarrow> Inl IsADirectoryError
      | Some (File b) \<Rightarrow>
          let target = (if is_dir fs dst then path_div dst (path_name src) else dst)
          in if target = src then Inl SameFileError
             else if is_dir fs target then Inl IsADirectoryError
             else if \<not> is_dir fs (butlast target) then Inl FileNotFoundError
             else Inr (fmupd target (File b) fs))"

text \<open>
  The state that the run changes: the file system, and two journals kept for the
  statements below, the moves and copies that were carried out and the URLs for
  which \<open>_download_epub_from_text_page\<close> was called.
\<close>

datatype fs_op = Move path path | Copy path path



record world =
  files :: filesystem
  ops :: "fs_op list"
  visited :: "pystr list"

text \<open>
  What the browser does for a document page is given: whether \<open>driver.get\<close> returns
  or raises, the probe of the page that is displayed (\<open>None\<close> when a call of the
  classification raises), whether the downloads block and the EPUB control are found
  and the click goes through, and what \<open>_wait_for_download\<close> then yields, for the
  page itself and for the Tibetan page of the secondary fetch (\<open>Lost\<close> there also when
  a step before the wait fails).
\<close>

datatype wait_result = Saved pystr bytes | TimedOut | Lost py_error

record visit =
  navigated :: bool
  probe :: "page_probe option"
  epub_clicked :: bool
  downloaded_file :: wait_result
  tibetan_file :: wait_result

text \<open>
  \<open>Saved nm content\<close>: the browser writes the file \<open>nm\<close> into the sink and the poller
  returns its path. The poller only returns a path that was not in the snapshot taken
  before the click: a name that exists already is no new file, and the wait times
  out. \<open>Lost e\<close>: the exception \<open>e\<close> escapes the poller.
\<close>

definition save_download ::
  "filesystem \<Rightarrow> path \<Rightarrow> wait_result \<Rightarrow> py_error + (path \<times> filesystem) option" where
  "save_download fs output_dir r =
     (case r of
        Saved nm content \<Rightarrow>
          if nm = [] \<or> path_exists fs (output_dir @ [nm]) then Inr None
          else Inr (Some (output_dir @ [nm], fmupd (output_dir @ [nm]) (File content) fs))
      | TimedOut \<Rightarrow> Inr None
      | Lost e \<Rightarrow> Inl e)"

text \<open>Lines 349-367: the move into the folder of the primary label.\<close>

definition move_to_subfolder ::
  "unicode_tables \<Rightarrow> path \<Rightarrow> world \<Rightarrow> path \<Rightarrow> pystr \<Rightarrow> py_error + path \<times> world" where
  "move_to_subfolder tabs output_dir w downloaded subfolder =
     (if subfolder = [] then Inr (downloaded, w)
      else
        let target_dir = path_div output_dir (sanitize tabs subfolder)
        in case mkdir_parents (files w) target_dir of
             Inl e \<Rightarrow> Inl e
           | Inr fs1 \<Rightarrow>
               (case unique_path fs1 (path_div target_dir (path_name downloaded)) of
                  Inl e \<Rightarrow> Inl e
                | Inr target_path \<Rightarrow>
                    (case replace_file fs1 downloaded target_path of
                       Inl e \<Rightarrow> Inr (downloaded, w\<lparr>files := fs1\<rparr>)
                     | Inr fs2 \<Rightarrow>
                         Inr (target_path,
                              w\<lparr>files := fs2, ops := ops w @ [Move downloaded target_path]\<rparr>))))"

text \<open>Lines 369-377: the copy into the language folder; every exception is swallowed.\<close>

definition copy_to_language_dir :: "path \<Rightarrow> world \<Rightarrow> path \<Rightarrow> pystr option \<Rightarrow> world" where
  "copy_to_language_dir output_dir w final_path extra =
     (case extra of
        None \<Rightarrow> w
      | Some lang \<Rightarrow>
          if lang = [] then w
          else
            (case mkdir_parents (files w) (path_div output_dir lang) of
               Inl e \<Rightarrow> w
             | Inr fs1 \<Rightarrow>
                 (case unique_path fs1 (path_div (path_div output_dir lang) (path_name final_path)) of
                    Inl e \<Rightarrow> w\<lparr>files := fs1\<rparr>
                  | Inr lang_target \<Rightarrow>
                      (case copy2 fs1 final_path lang_target of
                         Inl e \<Rightarrow> w\<lparr>files := fs1\<rparr>
                       | Inr fs2 \<Rightarrow>
                           w\<lparr>files := fs2, ops := ops w @ [Copy final_path lang_target]\<rparr>))))"

text \<open>
  Lines 381-444: for an English-only page the Tibetan EPUB is fetched and moved into
  \<open>Tibetan\<close>; every exception is swallowed.
\<close>

definition fetch_tibetan :: "path \<Rightarrow> world \<Rightarrow> pystr option \<Rightarrow> wait_result \<Rightarrow> world" where
  "fetch_tibetan output_dir w extra tib =
     (if extra = Some (py ''English'') then
        (case save_download (files w) output_dir tib of
           Inl e \<Rightarrow> w
         | Inr None \<Rightarrow> w
         | Inr (Some (tib_downloaded, fs0)) \<Rightarrow>
             (case mkdir_parents fs0 (path_div output_dir (py ''Tibetan'')) of
                Inl e \<Rightarrow> w\<lparr>files := fs0\<rparr>
              | Inr fs1 \<Rightarrow>
                  (case unique_path fs1
                          (path_div (path_div output_dir (py ''Tibetan'')) (path_name tib_downloaded)) of
                     Inl e \<Rightarrow> w\<lparr>files := fs1\<rparr>
                   | Inr tib_target \<Rightarrow>
                       (case replace_file fs1 tib_downloaded tib_target of
                          Inl e \<Rightarrow> w\<lparr>files := fs1\<rparr>
                        | Inr fs2 \<Rightarrow>
                            w\<lparr>files := fs2, ops := ops w @ [Move tib_downloaded tib_target]\<rparr>))))
      else w)"

text \<open>
  \<open>_download_epub_from_text_page\<close>, lines 227-448. The result is the path returned,
  \<open>None\<close> for \<open>False\<close> and for \<open>None\<close>, or the exception that escapes.
\<close>

definition download_epub_from_text_page ::
  "unicode_tables \<Rightarrow> path \<Rightarrow> (pystr \<Rightarrow> visit) \<Rightarrow> pystr \<Rightarrow> pystr \<Rightarrow> world
    \<Rightarrow> py_error + path option \<times> world" where
  "download_epub_from_text_page tabs output_dir browser url subfolder w =
     (let v = browser url;
          w0 = w\<lparr>visited := visited w @ [url]\<rparr>
      in if \<not> navigated v then Inl WebDriverException
         else
           let extra = extra_language_dir (probe v)
           in if \<not> epub_clicked v then Inr (None, w0)
              else
                (case save_download (files w0) output_dir (downloaded_file v) of
                   Inl e \<Rightarrow> Inl e
                 | Inr None \<Rightarrow> Inr (None, w0)
                 | Inr (Some (downloaded, fs1)) \<Rightarrow>
                     (case move_to_subfolder tabs output_dir (w0\<lparr>files := fs1\<rparr>) downloaded subfolder of
                        Inl e \<Rightarrow> Inl e
                      | Inr (final_path, w1) \<Rightarrow>
                          Inr (Some final_path,
                               fetch_tibetan output_dir
                                 (copy_to_language_dir output_dir w1 final_path extra)
                                 extra (tibetan_file v)))))"

text \<open>Lines 479-494: the copies into the folders of the further labels.\<close>

definition copy_to_extra ::
  "unicode_tables \<Rightarrow> path \<Rightarrow> path \<Rightarrow> pystr \<Rightarrow> world \<Rightarrow> py_error + world" where
  "copy_to_extra tabs output_dir final_path extra w =
     (let target_dir = path_div output_dir (sanitize tabs extra)
      in case mkdir_parents (files w) target_dir of
           Inl e \<Rightarrow> Inl e
         | Inr fs1 \<Rightarrow>
             (case unique_path fs1 (path_div target_dir (path_name final_path)) of
                Inl e \<Rightarrow> Inl e
              | Inr target_path \<Rightarrow>
                  (case copy2 fs1 final_path target_path of
                     Inl e \<Rightarrow> Inr (w\<lparr>files := fs1\<rparr>)
                   | Inr fs2 \<Rightarrow>
                       Inr (w\<lparr>files := fs2, ops := ops w @ [Copy final_path target_path]\<rparr>))))"

fun copy_extras ::
  "unicode_tables \<Rightarrow> path \<Rightarrow> path \<Rightarrow> pystr list \<Rightarrow> world \<Rightarrow> py_error + world" where
  "copy_extras tabs output_dir final_path [] w = Inr w"
| "copy_extras tabs output_dir final_path (extra # rest) w =
     (case copy_to_extra tabs output_dir final_path extra w of
        Inl e \<Rightarrow> Inl e
      | Inr w' \<Rightarrow> copy_extras tabs output_dir final_path rest w')"

text \<open>\<open>scrape_all\<close>, lines 461-505: the counters, the body of the loop, the loop.\<close>

record run_stats =
  total :: nat
  success :: nat
  failed :: nat

definition scrape_item ::
  "unicode_tables \<Rightarrow> path \<Rightarrow> (pystr \<Rightarrow> visit) \<Rightarrow> pystr \<times> pystr list \<Rightarrow> run_stats \<times> world
    \<Rightarrow> py_error + run_stats \<times> world" where
  "scrape_item tabs output_dir browser item st =
     (case item of (url, subfolders) \<Rightarrow>
      case st of (stats, w) \<Rightarrow>
        (case subfolders of
           [] \<Rightarrow> Inr (stats\<lparr>failed := failed stats + 1\<rparr>, w)
         | primary # extras \<Rightarrow>
             (case download_epub_from_text_page tabs output_dir browser url primary w of
                Inl e \<Rightarrow> Inl e
              | Inr (None, w1) \<Rightarrow> Inr (stats\<lparr>failed := failed stats + 1\<rparr>, w1)
              | Inr (Some final_path, w1) \<Rightarrow>
                  (case copy_extras tabs output_dir final_path extras w1 of
                     Inl e \<Rightarrow> Inl e
                   | Inr w2 \<Rightarrow> Inr (stats\<lparr>success := success stats + 1\<rparr>, w2)))))"

fun scrape_loop ::
  "unicode_tables \<Rightarrow> path \<Rightarrow> (pystr \<Rightarrow> visit) \<Rightarrow> (pystr \<times> pystr list) list \<Rightarrow> run_stats \<times> world
    \<Rightarrow> py_error + run_stats \<times> world" where
  "scrape_loop tabs output_dir browser [] st = Inr st"
| "scrape_loop tabs output_dir browser (item # rest) st =
     (case scrape_item tabs output_dir browser item st of
        Inl e \<Rightarrow> Inl e
      | Inr st' \<Rightarrow> scrape_loop tabs output_dir browser rest st')"

definition scrape_all ::
  "unicode_tables \<Rightarrow> path \<Rightarrow> (pystr \<Rightarrow> visit) \<Rightarrow> (pystr \<times> pystr list) list \<Rightarrow> world
    \<Rightarrow> py_error + run_stats \<times> world" where
  "scrape_all tabs output_dir browser items w =
     scrape_loop tabs output_dir browser items
       (\<lparr>total = length items, success = 0, failed = 0\<rparr>, w)"

text \<open>
  A world with an empty sink, and a browser that cannot load the page \<open>https://h/a\<close>
  and finds no EPUB control on any other page.
\<close>

definition sink_only :: world where
  "sink_only = \<lparr>files = fmupd [py ''out''] Dir fmempty, ops = [], visited = []\<rparr>"

definition offline_browser :: "pystr \<Rightarrow> visit" where
  "offline_browser url =
     \<lparr>navigated = (url \<noteq> py ''https://h/a''), probe = None, epub_clicked = False,
      downloaded_file = TimedOut, tibetan_file = TimedOut\<rparr>"

subsection \<open>Notions for the statements about placement\<close>



definition bilingual_page :: page_probe where
  "bilingual_page =
     \<lparr>current_url = py ''https://h/a'', has_bo_class = True, has_en_class = True,
      has_en_trans_class = False, maintext_elms = [[0x0F56, 0x0F7C, 0x0F51, 32, 104, 105]]\<rparr>"

definition saving_browser :: "page_probe \<Rightarrow> pystr \<Rightarrow> visit" where
  "saving_browser pg url =
     \<lparr>navigated = True, probe = Some pg, epub_clicked = True,
      downloaded_file = Saved (py ''a.epub'') [80, 75, 3, 4], tibetan_file = TimedOut\<rparr>"


section \<open>Properties of the content-language classification\<close>

lemma english_neq_tibetan: "py ''English'' \<noteq> py ''Tibetan''"
  by (simp add: py_def)

lemma tibetan_script_present_iff:
  "tibetan_script_present pg \<longleftrightarrow> (\<exists>c \<in> set (maintext_text pg). 0x0F00 \<le> c \<and> c \<le> 0x0FFF)"
  by (simp add: tibetan_script_present_def list_ex_iff is_tibetan_char_def)

text \<open>
  Claim C1. Whatever the page state, the classification yields \<open>English\<close> exactly when
  the page is not the source-language page and shows neither a source-language
  paragraph class nor a character of U+0F00..U+0FFF in the visible text; it yields
  \<open>Tibetan\<close> exactly when the page is the source-language page and shows neither the
  English class nor the English-transliteration class; and it yields \<open>None\<close> in
  every other state.
\<close>

theorem classify_decision_rule:
  "(classify pg = Some (py ''English'') \<longleftrightarrow>
      \<not> is_tibetan_page pg \<and> \<not> has_bo_class pg
      \<and> \<not> (\<exists>c \<in> set (maintext_text pg). 0x0F00 \<le> c \<and> c \<le> 0x0FFF))
   \<and> (classify pg = Some (py ''Tibetan'') \<longleftrightarrow>
      is_tibetan_page pg \<and> \<not> has_en_class pg \<and> \<not> has_en_trans_class pg)
   \<and> (classify pg = None \<longleftrightarrow>
      \<not> (\<not> is_tibetan_page pg \<and> \<not> has_bo_class pg
          \<and> \<not> (\<exists>c \<in> set (maintext_text pg). 0x0F00 \<le> c \<and> c \<le> 0x0FFF))
      \<and> \<not> (is_tibetan_page pg \<and> \<not> has_en_class pg \<and> \<not> has_en_trans_class pg))"
proof -
  have ne: "py ''Tibetan'' \<noteq> py ''English''"
    using english_neq_tibetan by simp
  show ?thesis
    unfolding classify_def Let_def tibetan_script_present_iff [symmetric]
    using english_neq_tibetan ne by auto
qed

theorem classify_decision_rule_witness:
  "classify \<lparr>current_url = py ''https://www.lotsawahouse.org/tibetan-masters/x'',
      has_bo_class = False, has_en_class = True, has_en_trans_class = False,
      maintext_elms = [py ''May all beings be happy'']\<rparr> = Some (py ''English'')
   \<and> classify \<lparr>current_url = py ''https://www.lotsawahouse.org/bo/tibetan-masters/x'',
      has_bo_class = True, has_en_class = False, has_en_trans_class = False,
      maintext_elms = [[0x0F56, 0x0F7C, 0x0F51]]\<rparr> = Some (py ''Tibetan'')
   \<and> classify \<lparr>current_url = py ''https://www.lotsawahouse.org/tibetan-masters/x'',
      has_bo_class = False, has_en_class = True, has_en_trans_class = False,
      maintext_elms = [[0x0F56, 0x0F7C, 0x0F51, 32, 104, 105]]\<rparr> = None"
proof -
  let ?a = "\<lparr>current_url = py ''https://www.lotsawahouse.org/tibetan-masters/x'',
      has_bo_class = False, has_en_class = True, has_en_trans_class = False,
      maintext_elms = [py ''May all beings be happy'']\<rparr>"
  let ?b = "\<lparr>current_url = py ''https://www.lotsawahouse.org/bo/tibetan-masters/x'',
      has_bo_class = True, has_en_class = False, has_en_trans_class = False,
      maintext_elms = [[0x0F56, 0x0F7C, 0x0F51]]\<rparr>"
  let ?c = "\<lparr>current_url = py ''https://www.lotsawahouse.org/tibetan-masters/x'',
      has_bo_class = False, has_en_class = True, has_en_trans_class = False,
      maintext_elms = [[0x0F56, 0x0F7C, 0x0F51, 32, 104, 105]]\<rparr>"
  have a: "\<not> is_tibetan_page ?a" and b: "is_tibetan_page ?b" and c: "\<not> is_tibetan_page ?c"
    by (simp_all add: is_tibetan_page_def py_def)
  have ta: "\<not> (\<exists>c \<in> set (maintext_text ?a). 0x0F00 \<le> c \<and> c \<le> 0x0FFF)"
    by (simp add: maintext_text_def py_def)
  have tc: "\<exists>c \<in> set (maintext_text ?c). 0x0F00 \<le> c \<and> c \<le> 0x0FFF"
    by (simp add: maintext_text_def)
  show ?thesis
    using classify_decision_rule [of ?a] classify_decision_rule [of ?b]
      classify_decision_rule [of ?c] a b c ta tc
    by simp
qed

section \<open>Properties of the JSON-to-folder transform\<close>

lemma py_keys_distinct:
  "py ''bo'' \<noteq> py ''en''" "py ''title'' \<noteq> py ''text''" "py ''bo.txt'' \<noteq> py ''en.txt''"
  by (simp_all add: py_def)

text \<open>
  Claim C9. For the record of the scenario the transform succeeds, whatever the tree
  was before: afterwards the folder \<open>T\<close> holds \<open>bo.txt\<close> with the content
  \<open>T\na\nc\n\<close> and \<open>en.txt\<close> with the content \<open>E\nb\n\<close> (the title, then every
  present verse value of that language, one per line); the other files of the folder
  and the other folders are as before.
\<close>

theorem json_to_folder_scenario:
  "\<exists>tree'. json_to_folder str_of scenario_record tree = Inr tree'
     \<and> (\<exists>files. tree' (py ''T'') = Some files
           \<and> files (py ''bo.txt'') = Some (py ''T\<newline>a\<newline>c\<newline>'')
           \<and> files (py ''en.txt'') = Some (py ''E\<newline>b\<newline>'')
           \<and> (\<forall>f. f \<noteq> py ''bo.txt'' \<and> f \<noteq> py ''en.txt''
                  \<longrightarrow> files f = folder_files tree (py ''T'') f))
     \<and> (\<forall>d. d \<noteq> py ''T'' \<longrightarrow> tree' d = tree d)"
proof -
  have bo: "get_bo_text str_of scenario_record (JStr (py ''T'')) = Inr (py ''T\<newline>a\<newline>c\<newline>'')"
    by (simp add: get_bo_text_def scenario_record_def subscript_def py_iter_def dict_get_def
        add_newline_def py_format_def py_def)
  have en: "get_en_text str_of scenario_record (JStr (py ''E'')) = Inr (py ''E\<newline>b\<newline>'')"
    by (simp add: get_en_text_def scenario_record_def subscript_def py_iter_def dict_get_def
        add_newline_def py_format_def py_def)
  have titles: "subscript scenario_record (py ''title'')
      = Inr (JObj [(py ''bo'', JStr (py ''T'')), (py ''en'', JStr (py ''E''))])"
    by (simp add: scenario_record_def subscript_def)
  have t_bo: "subscript (JObj [(py ''bo'', JStr (py ''T'')), (py ''en'', JStr (py ''E''))]) (py ''bo'')
      = Inr (JStr (py ''T''))"
    by (simp add: subscript_def)
  have t_en: "subscript (JObj [(py ''bo'', JStr (py ''T'')), (py ''en'', JStr (py ''E''))]) (py ''en'')
      = Inr (JStr (py ''E''))"
    using py_keys_distinct(1) by (simp add: subscript_def)
  have run: "json_to_folder str_of scenario_record tree
      = Inr (tree(py ''T'' \<mapsto> (folder_files tree (py ''T''))
                (py ''bo.txt'' \<mapsto> py ''T\<newline>a\<newline>c\<newline>'', py ''en.txt'' \<mapsto> py ''E\<newline>b\<newline>'')))"
    by (simp add: json_to_folder_def titles t_bo t_en bo en create_folder_def)
  show ?thesis
    unfolding run using py_keys_distinct(3) by simp
qed

theorem json_to_folder_scenario_witness:
  "\<exists>tree'. json_to_folder (\<lambda>v. []) scenario_record Map.empty = Inr tree'
     \<and> (\<exists>files. tree' (py ''T'') = Some files
           \<and> files (py ''bo.txt'') = Some [84, 10, 97, 10, 99, 10]
           \<and> files (py ''en.txt'') = Some [69, 10, 98, 10])"
proof -
  have "py ''T\<newline>a\<newline>c\<newline>'' = [84, 10, 97, 10, 99, 10]" "py ''E\<newline>b\<newline>'' = [69, 10, 98, 10]"
    by (simp_all add: py_def)
  then show ?thesis
    using json_to_folder_scenario [of "\<lambda>v. []" Map.empty] by auto
qed

text \<open>A verse that is a dict whose value under the key is not truthy is skipped by the loop.\<close>

lemma verse_loop_skip:
  assumes "dict_get verse lang (JStr []) = Inr g" and "\<not> truthy g"
  shows "verse_loop lang (pre @ verse # post) acc = verse_loop lang (pre @ post) acc"
  using assms
  by (induction pre arbitrary: acc) (auto split: sum.splits)

text \<open>
  Claim C10. A verse whose \<open>bo\<close> key (respectively \<open>en\<close> key) is present and maps to
  the empty string adds no line to the text of \<open>bo.txt\<close> (respectively \<open>en.txt\<close>):
  the text is the one obtained without that verse, and the one obtained when the
  verse has no such key (\<open>absent\<close> is the verse with the key removed).
\<close>

theorem empty_value_contributes_no_line:
  assumes "subscript data (py ''text'') = Inr (JArr (pre @ JObj kvs # post))"
    and "subscript data_without (py ''text'') = Inr (JArr (pre @ post))"
    and "subscript data_absent (py ''text'') = Inr (JArr (pre @ JObj absent # post))"
  shows "(map_of kvs (py ''bo'') = Some (JStr []) \<and> map_of absent (py ''bo'') = None \<longrightarrow>
            get_bo_text str_of data title = get_bo_text str_of data_without title
          \<and> get_bo_text str_of data title = get_bo_text str_of data_absent title)
       \<and> (map_of kvs (py ''en'') = Some (JStr []) \<and> map_of absent (py ''en'') = None \<longrightarrow>
            get_en_text str_of data title = get_en_text str_of data_without title
          \<and> get_en_text str_of data title = get_en_text str_of data_absent title)"
proof -
  have skip: "verse_loop lang (pre @ JObj kvs # post) acc = verse_loop lang (pre @ post) acc"
    if "map_of kvs lang = Some (JStr [])" for lang acc
    by (rule verse_loop_skip [where g = "JStr []"]) (simp_all add: dict_get_def that)
  have skip': "verse_loop lang (pre @ JObj absent # post) acc = verse_loop lang (pre @ post) acc"
    if "map_of absent lang = None" for lang acc
    by (rule verse_loop_skip [where g = "JStr []"]) (simp_all add: dict_get_def that)
  show ?thesis
    using assms by (simp add: get_bo_text_def get_en_text_def py_iter_def skip skip')
qed

theorem empty_value_contributes_no_line_witness:
  "get_bo_text (\<lambda>v. [])
      (JObj [(py ''text'', JArr [JObj [(py ''bo'', JStr (py ''a''))],
                                 JObj [(py ''bo'', JStr []), (py ''en'', JStr (py ''b''))],
                                 JObj [(py ''bo'', JStr (py ''c''))]])]) (JStr (py ''T''))
     = Inr (py ''T\<newline>a\<newline>c\<newline>'')
   \<and> get_en_text (\<lambda>v. [])
      (JObj [(py ''text'', JArr [JObj [(py ''en'', JStr (py ''a''))],
                                 JObj [(py ''en'', JStr [])],
                                 JObj [(py ''en'', JStr (py ''c''))]])]) (JStr (py ''E''))
     = Inr (py ''E\<newline>a\<newline>c\<newline>'')"
proof -
  let ?pre = "\<lambda>k. [JObj [(py k, JStr (py ''a''))]]"
  let ?post = "\<lambda>k. [JObj [(py k, JStr (py ''c''))]]"
  let ?kvs = "[(py ''bo'', JStr []), (py ''en'', JStr (py ''b''))]"
  let ?abs = "[(py ''en'', JStr (py ''b''))]"
  have ne: "py ''bo'' \<noteq> py ''en''" "py ''en'' \<noteq> py ''bo''"
    by (simp_all add: py_def)
  have bo: "get_bo_text (\<lambda>v. []) (JObj [(py ''text'', JArr (?pre ''bo'' @ JObj ?kvs # ?post ''bo''))])
        (JStr (py ''T''))
      = get_bo_text (\<lambda>v. []) (JObj [(py ''text'', JArr (?pre ''bo'' @ ?post ''bo''))]) (JStr (py ''T''))"
    using empty_value_contributes_no_line [of
        "JObj [(py ''text'', JArr (?pre ''bo'' @ JObj ?kvs # ?post ''bo''))]" "?pre ''bo''" ?kvs
        "?post ''bo''" "JObj [(py ''text'', JArr (?pre ''bo'' @ ?post ''bo''))]"
        "JObj [(py ''text'', JArr (?pre ''bo'' @ JObj ?abs # ?post ''bo''))]" ?abs
        "\<lambda>v. []" "JStr (py ''T'')"] ne
    by (simp add: subscript_def)
  have en: "get_en_text (\<lambda>v. [])
        (JObj [(py ''text'', JArr (?pre ''en'' @ JObj [(py ''en'', JStr [])] # ?post ''en''))])
        (JStr (py ''E''))
      = get_en_text (\<lambda>v. []) (JObj [(py ''text'', JArr (?pre ''en'' @ ?post ''en''))]) (JStr (py ''E''))"
    using empty_value_contributes_no_line [of
        "JObj [(py ''text'', JArr (?pre ''en'' @ JObj [(py ''en'', JStr [])] # ?post ''en''))]"
        "?pre ''en''" "[(py ''en'', JStr [])]"
        "?post ''en''" "JObj [(py ''text'', JArr (?pre ''en'' @ ?post ''en''))]"
        "JObj [(py ''text'', JArr (?pre ''en'' @ JObj [] # ?post ''en''))]" "[]"
        "\<lambda>v. []" "JStr (py ''E'')"]
    by (simp add: subscript_def)
  have bo2: "get_bo_text (\<lambda>v. []) (JObj [(py ''text'', JArr (?pre ''bo'' @ ?post ''bo''))])
        (JStr (py ''T'')) = Inr (py ''T\<newline>a\<newline>c\<newline>'')"
    by (simp add: get_bo_text_def subscript_def py_iter_def dict_get_def add_newline_def
        py_format_def py_def)
  have en2: "get_en_text (\<lambda>v. []) (JObj [(py ''text'', JArr (?pre ''en'' @ ?post ''en''))])
        (JStr (py ''E'')) = Inr (py ''E\<newline>a\<newline>c\<newline>'')"
    by (simp add: get_en_text_def subscript_def py_iter_def dict_get_def add_newline_def
        py_format_def py_def)
  show ?thesis
    using bo en bo2 en2 by simp
qed

section \<open>Properties of link collection\<close>

lemma set_first_seen: "set (first_seen xs) = set xs"
  by (induction xs rule: first_seen.induct) auto

lemma distinct_first_seen: "distinct (first_seen xs)"
  by (induction xs rule: first_seen.induct) (auto simp: set_first_seen)

lemma first_seen_snoc:
  "first_seen (xs @ [x]) = (if x \<in> set xs then first_seen xs else first_seen xs @ [x])"
  by (induction xs rule: first_seen.induct) auto

lemma record_link_state_of:
  "record_link l u (state_of ps) = Inr (state_of (ps @ [(l, u)]))"
proof (cases "u \<in> snd ` set ps")
  case True
  then show ?thesis
    unfolding record_link_def state_of_def labels_of_def
    by (auto simp: first_seen_snoc set_first_seen fun_eq_iff image_iff)
next
  case False
  then have "filter (\<lambda>p. snd p = u) ps = []"
    by (auto simp: filter_empty_conv)
  with False show ?thesis
    unfolding record_link_def state_of_def labels_of_def
    by (auto simp: first_seen_snoc set_first_seen fun_eq_iff image_iff)
qed

lemma anchors_loop_state_of:
  "anchors_loop uj b (py_strip t) hrefs (state_of ps)
     = Inr (state_of (ps @ section_pairs uj b t hrefs))"
proof (induction hrefs arbitrary: ps)
  case Nil
  then show ?case by (simp add: section_pairs_def)
next
  case (Cons a hrefs)
  show ?case
  proof (cases a)
    case None
    then show ?thesis using Cons [of ps] by (simp add: section_pairs_def)
  next
    case (Some href)
    show ?thesis
    proof (cases "href = []")
      case True
      then show ?thesis using Some Cons [of ps] by (simp add: section_pairs_def)
    next
      case False
      then show ?thesis
        using Some Cons [of "ps @ [(py_strip t, uj b href)]"]
        by (simp add: section_pairs_def record_link_state_of)
    qed
  qed
qed

lemma details_loop_state_of:
  "list_all (\<lambda>d. summary_text d \<noteq> None) ds \<Longrightarrow>
   details_loop uj b ds (state_of ps) = Inr (state_of (ps @ page_pairs uj b ds))"
proof (induction ds arbitrary: ps)
  case Nil
  then show ?case by simp
next
  case (Cons d ds)
  then obtain t where t: "summary_text d = Some t" by auto
  from Cons.prems have "list_all (\<lambda>d. summary_text d \<noteq> None) ds" by simp
  from Cons.IH [OF this, of "ps @ section_pairs uj b t (anchor_hrefs d)"]
  show ?case by (simp add: t anchors_loop_state_of)
qed

lemma grouped_of_state:
  "set us \<subseteq> snd ` set ps \<Longrightarrow>
   grouped_of (fst (state_of ps)) us = Inr (map (\<lambda>u. (u, labels_of ps u)) us)"
  by (induction us) (auto simp: state_of_def)

lemma state_of_Nil: "state_of [] = (Map.empty, [])"
  by (simp add: state_of_def)

lemma collect_refines:
  assumes "list_all (\<lambda>d. summary_text d \<noteq> None) ds"
  shows "collect_text_links uj b ds = Inr (links_by_spec (page_pairs uj b ds))"
proof -
  let ?ps = "page_pairs uj b ds"
  have loop: "details_loop uj b ds (Map.empty, []) = Inr (state_of ?ps)"
    using details_loop_state_of [OF assms, of uj b "[]"] by (simp add: state_of_Nil)
  have "set (snd (state_of ?ps)) \<subseteq> snd ` set ?ps"
    by (simp add: state_of_def set_first_seen)
  then have "grouped_of (fst (state_of ?ps)) (snd (state_of ?ps)) = Inr (links_by_spec ?ps)"
    unfolding links_by_spec_def by (simp add: grouped_of_state) (simp add: state_of_def)
  with loop show ?thesis
    by (simp add: collect_text_links_def split: prod.splits) (metis fst_conv snd_conv)
qed

lemma links_by_spec_urls: "map fst (links_by_spec ps) = first_seen (map snd ps)"
  by (simp add: links_by_spec_def comp_def)

lemma links_by_spec_labels:
  assumes "(u, ls) \<in> set (links_by_spec ps)"
  shows "ls = labels_of ps u" and "distinct ls" and "set ls = {l. (l, u) \<in> set ps}"
proof -
  from assms show ls: "ls = labels_of ps u"
    by (auto simp: links_by_spec_def)
  show "distinct ls"
    by (simp add: ls labels_of_def distinct_first_seen)
  show "set ls = {l. (l, u) \<in> set ps}"
    by (auto simp: ls labels_of_def set_first_seen image_iff)
qed

lemma strip_scenario_labels:
  "py_strip (py ''Dedications'') = py ''Dedications''"
  "py_strip (py ''Aspirations'') = py ''Aspirations''"
  "py ''Dedications'' \<noteq> py ''Aspirations''"
  by (simp_all add: py_strip_def py_def py_isspace_def)

lemma scenario_page_pairs:
  assumes "A \<noteq> []" and "B \<noteq> []"
  shows "page_pairs uj b (scenario_page A B)
    = [(py ''Dedications'', uj b A), (py ''Aspirations'', uj b A), (py ''Aspirations'', uj b B)]"
  using assms by (simp add: scenario_page_def section_pairs_def strip_scenario_labels)

text \<open>
  Claim C6. When every section of the page has a summary, link collection returns a
  list and not an error, and the list is the one the specification describes for
  the (section label, URL) pairs read from the page: the URLs in first-seen order,
  each once, each with the distinct labels it appeared under in order of appearance.
  The scenario page (Dedications with A; Aspirations with A and B) gives
  \<open>[(A, [Dedications, Aspirations]), (B, [Aspirations])]\<close>, and a page with no
  section, or with no link in any section, gives the empty list.
\<close>

theorem collect_text_links_first_seen:
  "(list_all (\<lambda>d. summary_text d \<noteq> None) details \<longrightarrow>
      (\<exists>links. collect_text_links uj b details = Inr links
         \<and> links = links_by_spec (page_pairs uj b details)
         \<and> map fst links = first_seen (map snd (page_pairs uj b details))
         \<and> distinct (map fst links)
         \<and> set (map fst links) = snd ` set (page_pairs uj b details)
         \<and> (\<forall>(u, ls) \<in> set links.
               ls = first_seen (map fst (filter (\<lambda>p. snd p = u) (page_pairs uj b details)))
               \<and> distinct ls \<and> set ls = {l. (l, u) \<in> set (page_pairs uj b details)})))
   \<and> (A \<noteq> [] \<and> B \<noteq> [] \<and> uj b A \<noteq> uj b B \<longrightarrow>
        collect_text_links uj b (scenario_page A B)
          = Inr [(uj b A, [py ''Dedications'', py ''Aspirations'']),
                 (uj b B, [py ''Aspirations''])])
   \<and> collect_text_links uj b [] = Inr []
   \<and> (list_all (\<lambda>d. summary_text d \<noteq> None \<and> anchor_hrefs d = []) details \<longrightarrow>
        collect_text_links uj b details = Inr [])"
proof (intro conjI impI)
  assume all: "list_all (\<lambda>d. summary_text d \<noteq> None) details"
  let ?ps = "page_pairs uj b details"
  have "\<forall>(u, ls) \<in> set (links_by_spec ?ps).
          ls = first_seen (map fst (filter (\<lambda>p. snd p = u) ?ps))
          \<and> distinct ls \<and> set ls = {l. (l, u) \<in> set ?ps}"
    using links_by_spec_labels [of _ _ ?ps] by (auto simp: labels_of_def)
  then show "\<exists>links. collect_text_links uj b details = Inr links
         \<and> links = links_by_spec ?ps
         \<and> map fst links = first_seen (map snd ?ps)
         \<and> distinct (map fst links)
         \<and> set (map fst links) = snd ` set ?ps
         \<and> (\<forall>(u, ls) \<in> set links.
               ls = first_seen (map fst (filter (\<lambda>p. snd p = u) ?ps))
               \<and> distinct ls \<and> set ls = {l. (l, u) \<in> set ?ps})"
    using links_by_spec_urls [of ?ps] set_map [of fst "links_by_spec ?ps"]
    by (simp add: collect_refines [OF all] distinct_first_seen set_first_seen)
next
  assume h: "A \<noteq> [] \<and> B \<noteq> [] \<and> uj b A \<noteq> uj b B"
  have "list_all (\<lambda>d. summary_text d \<noteq> None) (scenario_page A B)"
    by (simp add: scenario_page_def)
  from collect_refines [OF this, of uj b] h
  show "collect_text_links uj b (scenario_page A B)
          = Inr [(uj b A, [py ''Dedications'', py ''Aspirations'']),
                 (uj b B, [py ''Aspirations''])]"
    using strip_scenario_labels(3)
    by (auto simp: scenario_page_pairs links_by_spec_def labels_of_def)
next
  show "collect_text_links uj b [] = Inr []"
    by (simp add: collect_text_links_def)
next
  assume h: "list_all (\<lambda>d. summary_text d \<noteq> None \<and> anchor_hrefs d = []) details"
  then have all: "list_all (\<lambda>d. summary_text d \<noteq> None) details"
    by (simp add: list_all_iff)
  from h have "page_pairs uj b details = []"
    by (induction details) (auto simp: section_pairs_def)
  with collect_refines [OF all, of uj b] show "collect_text_links uj b details = Inr []"
    by (simp add: links_by_spec_def)
qed

theorem collect_text_links_first_seen_witness:
  "collect_text_links (\<lambda>base href. href) (py ''https://www.lotsawahouse.org/bo/topics/prayers/'')
      (scenario_page (py ''https://h/a'') (py ''https://h/b''))
     = Inr [(py ''https://h/a'', [py ''Dedications'', py ''Aspirations'']),
            (py ''https://h/b'', [py ''Aspirations''])]
   \<and> collect_text_links (\<lambda>base href. href) (py ''https://www.lotsawahouse.org/bo/topics/prayers/'')
      [\<lparr>summary_text = Some (py ''Dedications''), anchor_hrefs = []\<rparr>] = Inr []"
proof -
  let ?uj = "\<lambda>base href :: pystr. href"
  let ?b = "py ''https://www.lotsawahouse.org/bo/topics/prayers/''"
  have ne: "py ''https://h/a'' \<noteq> []" "py ''https://h/b'' \<noteq> []"
    "py ''https://h/a'' \<noteq> py ''https://h/b''"
    by (simp_all add: py_def)
  have l: "list_all (\<lambda>d. summary_text d \<noteq> None \<and> anchor_hrefs d = [])
      [\<lparr>summary_text = Some (py ''Dedications''), anchor_hrefs = []\<rparr>]"
    by simp
  have s: "py ''https://h/a'' \<noteq> [] \<and> py ''https://h/b'' \<noteq> []
        \<and> ?uj ?b (py ''https://h/a'') \<noteq> ?uj ?b (py ''https://h/b'') \<longrightarrow>
      collect_text_links ?uj ?b (scenario_page (py ''https://h/a'') (py ''https://h/b''))
        = Inr [(?uj ?b (py ''https://h/a''), [py ''Dedications'', py ''Aspirations'']),
               (?uj ?b (py ''https://h/b''), [py ''Aspirations''])]"
    using collect_text_links_first_seen [of "[]" ?uj ?b "py ''https://h/a''" "py ''https://h/b''"]
    by (elim conjE)
  have e: "list_all (\<lambda>d. summary_text d \<noteq> None \<and> anchor_hrefs d = [])
        [\<lparr>summary_text = Some (py ''Dedications''), anchor_hrefs = []\<rparr>] \<longrightarrow>
      collect_text_links ?uj ?b [\<lparr>summary_text = Some (py ''Dedications''), anchor_hrefs = []\<rparr>]
        = Inr []"
    using collect_text_links_first_seen [of
        "[\<lparr>summary_text = Some (py ''Dedications''), anchor_hrefs = []\<rparr>]" ?uj ?b "[]" "[]"]
    by (elim conjE)
  show ?thesis
    using s e ne l by simp
qed

section \<open>Properties of the uniqueness resolver\<close>

lemma stem_suffix: "py_stem nm @ py_suffix nm = nm"
  by (simp add: py_stem_def py_suffix_def split: option.splits)

lemma unique_loop_least:
  assumes "p \<noteq> []" and "last p \<noteq> []"
  shows "\<exists>m\<ge>n. unique_loop fs p stem ext n = Inr (butlast p @ [numbered_name stem ext m])
           \<and> \<not> path_exists fs (butlast p @ [numbered_name stem ext m])
           \<and> (\<forall>k. n \<le> k \<and> k < m \<longrightarrow> path_exists fs (butlast p @ [numbered_name stem ext k]))"
  using assms
proof (induction fs p stem ext n rule: unique_loop.induct)
  case (1 fs p stem ext n)
  let ?c = "\<lambda>k. butlast p @ [numbered_name stem ext k]"
  have w: "with_name p (numbered_name stem ext n) = Inr (?c n)"
    using "1.prems" by (simp add: with_name_def path_name_def)
  show ?case
  proof (cases "path_exists fs (?c n)")
    case False
    then have "unique_loop fs p stem ext n = Inr (?c n)"
      by (subst unique_loop.simps) (simp add: w)
    with False show ?thesis by (intro exI [of _ n]) auto
  next
    case True
    then have "\<not> \<not> path_exists fs (?c n)" by simp
    from "1.IH" [OF w this "1.prems"] obtain m where m: "m \<ge> n + 1"
      "unique_loop fs p stem ext (n + 1) = Inr (?c m)" "\<not> path_exists fs (?c m)"
      "\<forall>k. n + 1 \<le> k \<and> k < m \<longrightarrow> path_exists fs (?c k)"
      by auto
    have u: "unique_loop fs p stem ext n = Inr (?c m)"
      using True m(2) by (subst unique_loop.simps) (simp add: w)
    have "\<forall>k. n \<le> k \<and> k < m \<longrightarrow> path_exists fs (?c k)"
    proof (intro allI impI)
      fix k assume "n \<le> k \<and> k < m"
      then show "path_exists fs (?c k)"
        using True m(4) by (cases "k = n") auto
    qed
    with u m show ?thesis by (intro exI [of _ m]) auto
  qed
qed

lemma unique_loop_cong:
  assumes "\<And>q. path_exists fs q = path_exists fs' q"
  shows "unique_loop fs p stem ext n = unique_loop fs' p stem ext n"
  using assms
proof (induction fs p stem ext n rule: unique_loop.induct)
  case (1 fs p stem ext n)
  show ?case
  proof (cases "with_name p (numbered_name stem ext n)")
    case (Inl e)
    then show ?thesis
      by (subst unique_loop.simps, subst (2) unique_loop.simps) simp
  next
    case (Inr c)
    show ?thesis
    proof (cases "path_exists fs c")
      case False
      then show ?thesis
        using Inr "1.prems" by (subst unique_loop.simps, subst (2) unique_loop.simps) simp
    next
      case True
      then have "unique_loop fs p stem ext (n + 1) = unique_loop fs' p stem ext (n + 1)"
        using "1.IH" [OF Inr] "1.prems" by simp
      then show ?thesis
        using Inr True "1.prems" by (subst unique_loop.simps, subst (2) unique_loop.simps) simp
    qed
  qed
qed

lemma unique_path_numbered:
  assumes "path_exists fs p" and "path_name p \<noteq> []"
  shows "\<exists>n\<ge>1. unique_path fs p = Inr (numbered p n) \<and> \<not> path_exists fs (numbered p n)
           \<and> (\<forall>k. 1 \<le> k \<and> k < n \<longrightarrow> path_exists fs (numbered p k))"
proof -
  from assms(2) have "p \<noteq> []" "last p \<noteq> []"
    by (auto simp: path_name_def split: if_splits)
  from unique_loop_least [OF this, of 1 fs "py_stem (path_name p)" "py_suffix (path_name p)"]
  show ?thesis
    using assms(1) by (simp add: unique_path_def numbered_def)
qed

lemma unique_path_free:
  assumes "unique_path fs p = Inr q"
  shows "\<not> path_exists fs q"
proof (cases "path_exists fs p")
  case False
  with assms show ?thesis by (simp add: unique_path_def)
next
  case True
  show ?thesis
  proof (cases "path_name p = []")
    case True
    then have "unique_loop fs p (py_stem (path_name p)) (py_suffix (path_name p)) 1 = Inl ValueError"
      by (subst unique_loop.simps) (simp add: with_name_def)
    with assms \<open>path_exists fs p\<close> show ?thesis by (simp add: unique_path_def)
  next
    case False
    from unique_path_numbered [OF True False] assms show ?thesis by auto
  qed
qed


text \<open>
  Claim C4. Whatever files exist and whatever the path \<open>p\<close>: the resolver returns
  \<open>p\<close> itself when \<open>p\<close> does not exist; when \<open>p\<close> exists (and has a name) it returns
  \<open>p\<close> with \<open> (n)\<close> put before the extension of its name, for the least \<open>n \<ge> 1\<close> whose
  candidate does not exist. The path it returns never exists, so that writing to it
  overwrites nothing, and the result depends on nothing but the set of existing paths.
\<close>

theorem unique_path_least_free:
  "(\<not> path_exists fs p \<longrightarrow> unique_path fs p = Inr p)
   \<and> (path_exists fs p \<and> path_name p \<noteq> [] \<longrightarrow>
        (\<exists>n\<ge>1. unique_path fs p = Inr (numbered p n)
           \<and> path_name (numbered p n)
               = py_stem (path_name p) @ py '' ('' @ str_nat n @ py '')'' @ py_suffix (path_name p)
           \<and> py_stem (path_name p) @ py_suffix (path_name p) = path_name p
           \<and> butlast (numbered p n) = butlast p
           \<and> \<not> path_exists fs (numbered p n)
           \<and> (\<forall>k. 1 \<le> k \<and> k < n \<longrightarrow> path_exists fs (numbered p k))))
   \<and> (\<forall>q. unique_path fs p = Inr q \<longrightarrow> \<not> path_exists fs q \<and> fmlookup fs q = None)
   \<and> ((\<forall>q. path_exists fs q = path_exists fs' q) \<longrightarrow> unique_path fs p = unique_path fs' p)"
proof (intro conjI impI allI)
  assume "\<not> path_exists fs p"
  then show "unique_path fs p = Inr p" by (simp add: unique_path_def)
next
  assume h: "path_exists fs p \<and> path_name p \<noteq> []"
  then obtain n where n: "n \<ge> 1" "unique_path fs p = Inr (numbered p n)"
    "\<not> path_exists fs (numbered p n)"
    "\<forall>k. 1 \<le> k \<and> k < n \<longrightarrow> path_exists fs (numbered p k)"
    using unique_path_numbered [of fs p] by blast
  have "path_name (numbered p n)
      = py_stem (path_name p) @ py '' ('' @ str_nat n @ py '')'' @ py_suffix (path_name p)"
    by (simp add: numbered_def path_name_def numbered_name_def)
  moreover have "butlast (numbered p n) = butlast p"
    by (simp add: numbered_def)
  ultimately show "\<exists>n\<ge>1. unique_path fs p = Inr (numbered p n)
           \<and> path_name (numbered p n)
               = py_stem (path_name p) @ py '' ('' @ str_nat n @ py '')'' @ py_suffix (path_name p)
           \<and> py_stem (path_name p) @ py_suffix (path_name p) = path_name p
           \<and> butlast (numbered p n) = butlast p
           \<and> \<not> path_exists fs (numbered p n)
           \<and> (\<forall>k. 1 \<le> k \<and> k < n \<longrightarrow> path_exists fs (numbered p k))"
    using n stem_suffix by blast
next
  fix q assume "unique_path fs p = Inr q"
  then show "\<not> path_exists fs q" by (rule unique_path_free)
next
  fix q assume "unique_path fs p = Inr q"
  then have "\<not> path_exists fs q" by (rule unique_path_free)
  then show "fmlookup fs q = None" by (simp add: path_exists_def)
next
  assume "\<forall>q. path_exists fs q = path_exists fs' q"
  then show "unique_path fs p = unique_path fs' p"
    using unique_loop_cong [of fs fs'] by (simp add: unique_path_def)
qed

theorem unique_path_least_free_witness:
  "path_exists crowded_sink [py ''out'', py ''x.epub'']
   \<and> unique_path crowded_sink [py ''out'', py ''x.epub''] = Inr [py ''out'', py ''x (2).epub'']
   \<and> \<not> path_exists crowded_sink [py ''out'', py ''x (2).epub'']
   \<and> unique_path crowded_sink [py ''out'', py ''y.epub''] = Inr [py ''out'', py ''y.epub'']"
proof -
  let ?p = "[py ''out'', py ''x.epub'']"
  let ?y = "[py ''out'', py ''y.epub'']"
  have ex: "path_exists crowded_sink ?p" and nm: "path_name ?p \<noteq> []"
    and ny: "\<not> path_exists crowded_sink ?y"
    by (simp_all add: path_exists_def crowded_sink_def path_name_def py_def)
  have val: "unique_path crowded_sink ?p = Inr [py ''out'', py ''x (2).epub'']"
    by (simp add: unique_path_def unique_loop.simps str_nat.simps path_exists_def crowded_sink_def
        path_name_def py_stem_def py_suffix_def py_rfind_def numbered_name_def with_name_def py_def)
  from unique_path_least_free [of crowded_sink ?p crowded_sink] ex nm
  obtain n where "unique_path crowded_sink ?p = Inr (numbered ?p n)"
    "\<not> path_exists crowded_sink (numbered ?p n)"
    by blast
  with val have free: "\<not> path_exists crowded_sink [py ''out'', py ''x (2).epub'']"
    by simp
  from unique_path_least_free [of crowded_sink ?y crowded_sink] ny
  have "unique_path crowded_sink ?y = Inr ?y"
    by blast
  with ex val free show ?thesis by simp
qed

section \<open>Properties of the sanitization\<close>

lemma last_dropWhile: "dropWhile P ys \<noteq> [] \<Longrightarrow> last (dropWhile P ys) = last ys"
  by (metis last_appendR takeWhile_dropWhile_id)

lemma py_strip_ends:
  "py_strip s = [] \<or> (\<not> py_isspace (hd (py_strip s)) \<and> \<not> py_isspace (last (py_strip s)))"
proof (cases "py_strip s = []")
  case True
  then show ?thesis by simp
next
  case False
  let ?x = "dropWhile py_isspace s"
  let ?y = "dropWhile py_isspace (rev ?x)"
  from False have y: "?y \<noteq> []" by (simp add: py_strip_def)
  have x: "?x \<noteq> []"
  proof
    assume a: "?x = []"
    have "?y = []" unfolding a by simp
    with y show False by blast
  qed
  have "\<not> py_isspace (hd ?y)" using y by (rule hd_dropWhile)
  then have l: "\<not> py_isspace (last (py_strip s))"
    using y by (simp add: py_strip_def last_rev)
  have "last ?y = last (rev ?x)" using y by (rule last_dropWhile)
  also have "\<dots> = hd ?x" using x by (simp add: last_rev)
  finally have "hd (py_strip s) = hd ?x"
    using y by (simp add: py_strip_def hd_rev)
  moreover have "\<not> py_isspace (hd ?x)" using x by (rule hd_dropWhile)
  ultimately show ?thesis using l by simp
qed

lemma py_strip_fixed_iff:
  "py_strip s = s \<longleftrightarrow> s = [] \<or> (\<not> py_isspace (hd s) \<and> \<not> py_isspace (last s))"
proof
  assume "py_strip s = s"
  with py_strip_ends [of s] show "s = [] \<or> (\<not> py_isspace (hd s) \<and> \<not> py_isspace (last s))"
    by auto
next
  assume h: "s = [] \<or> (\<not> py_isspace (hd s) \<and> \<not> py_isspace (last s))"
  show "py_strip s = s"
  proof (cases "s = []")
    case True
    then show ?thesis by (simp add: py_strip_def)
  next
    case False
    with h have a: "dropWhile py_isspace s = s"
      by (simp add: dropWhile_eq_self_iff)
    from False h have "dropWhile py_isspace (rev s) = rev s"
      by (simp add: dropWhile_eq_self_iff hd_rev)
    with a show ?thesis by (simp add: py_strip_def)
  qed
qed

lemma py_strip_idem: "py_strip (py_strip s) = py_strip s"
  using py_strip_ends [of s] by (simp add: py_strip_fixed_iff)

lemma set_py_strip: "set (py_strip s) \<subseteq> set s"
proof -
  have "set (py_strip s) \<subseteq> set (dropWhile py_isspace s)"
    unfolding py_strip_def using set_dropWhileD by fastforce
  then show ?thesis using set_dropWhileD by fastforce
qed

lemma sanitize_Misc: "sanitize tabs (py ''Misc'') = py ''Misc''"
  by (simp add: sanitize_def py_def keep_char_def py_isalnum_def py_strip_def py_isspace_def
      py_nfc_def is_ascii_def)

lemma sanitize_nonempty: "sanitize tabs L \<noteq> []"
  by (simp add: sanitize_def Let_def py_def)

lemma sanitize_idem_general:
  assumes idem: "\<forall>s. py_nfc tabs (py_nfc tabs s) = py_nfc tabs s"
    and ends: "\<forall>s. py_strip s = s \<longrightarrow> py_strip (py_nfc tabs s) = py_nfc tabs s"
    and kept: "list_all (keep_char tabs) (sanitize tabs L)"
  shows "sanitize tabs (sanitize tabs L) = sanitize tabs L"
proof -
  let ?t = "py_strip (filter (keep_char tabs) L)"
  let ?s = "py_nfc tabs ?t"
  show ?thesis
  proof (cases "?s = []")
    case True
    then have "sanitize tabs L = py ''Misc''" by (simp add: sanitize_def)
    then show ?thesis by (simp add: sanitize_Misc)
  next
    case False
    then have s: "sanitize tabs L = ?s" by (simp add: sanitize_def)
    from kept have f: "filter (keep_char tabs) ?s = ?s"
      by (simp add: s list_all_iff)
    have "py_strip ?t = ?t" by (rule py_strip_idem)
    with ends have st: "py_strip ?s = ?s" by blast
    from idem have n: "py_nfc tabs ?s = ?s" by blast
    have "sanitize tabs ?s = ?s"
      using False by (simp add: sanitize_def [of tabs ?s] f st n)
    with s show ?thesis by simp
  qed
qed

lemma nfc_devanagari_all: "py_nfc devanagari_tables s = nfc_devanagari s"
proof -
  have "is_ascii s \<Longrightarrow> nfc_devanagari s = s"
    by (induction s) (auto simp: is_ascii_def nfc_devanagari_def)
  then show ?thesis by (simp add: py_nfc_def devanagari_tables_def)
qed

lemma nfc_devanagari_append: "nfc_devanagari (a @ b) = nfc_devanagari a @ nfc_devanagari b"
  by (simp add: nfc_devanagari_def)

lemma nfc_devanagari_idem: "nfc_devanagari (nfc_devanagari s) = nfc_devanagari s"
proof (induction s)
  case Nil
  then show ?case by (simp add: nfc_devanagari_def)
next
  case (Cons c s)
  have "nfc_devanagari (c # s) = nfc_devanagari [c] @ nfc_devanagari s"
    using nfc_devanagari_append [of "[c]" s] by simp
  moreover have "nfc_devanagari (nfc_devanagari [c]) = nfc_devanagari [c]"
    by (simp add: nfc_devanagari_def)
  ultimately show ?case using Cons by (simp add: nfc_devanagari_append)
qed

lemma nfc_devanagari_ends:
  assumes "s \<noteq> []"
  shows "nfc_devanagari s \<noteq> []"
    and "hd (nfc_devanagari s) = (if hd s = 0x0958 then 0x0915 else hd s)"
    and "last (nfc_devanagari s) = (if last s = 0x0958 then 0x093C else last s)"
proof -
  from assms obtain c r where cr: "s = c # r" by (cases s) auto
  show "nfc_devanagari s \<noteq> []" "hd (nfc_devanagari s) = (if hd s = 0x0958 then 0x0915 else hd s)"
    by (simp_all add: cr nfc_devanagari_def)
  from assms obtain r' d where rd: "s = r' @ [d]" by (cases s rule: rev_cases) auto
  show "last (nfc_devanagari s) = (if last s = 0x0958 then 0x093C else last s)"
    by (simp add: rd nfc_devanagari_append) (simp add: nfc_devanagari_def)
qed

lemma nfc_devanagari_strip:
  assumes "py_strip s = s"
  shows "py_strip (nfc_devanagari s) = nfc_devanagari s"
proof (cases "s = []")
  case True
  then show ?thesis by (simp add: nfc_devanagari_def py_strip_def)
next
  case False
  with assms have "\<not> py_isspace (hd s)" "\<not> py_isspace (last s)"
    by (simp_all add: py_strip_fixed_iff)
  moreover have "\<not> py_isspace 0x0915" "\<not> py_isspace 0x093C"
    by (simp_all add: py_isspace_def)
  ultimately show ?thesis
    using nfc_devanagari_ends [OF False] by (simp add: py_strip_fixed_iff)
qed

text \<open>
  Sanitizing twice is not sanitizing once: the label U+0958 passes the filter (it is a
  letter), NFC turns it into U+0915 U+093C, and the second pass drops the mark U+093C.
\<close>

theorem sanitize_not_idempotent:
  "sanitize devanagari_tables (sanitize devanagari_tables [0x0958])
     \<noteq> sanitize devanagari_tables [0x0958]"
  by (simp add: sanitize_def devanagari_tables_def nfc_devanagari_def keep_char_def
      py_isalnum_def py_strip_def py_isspace_def py_nfc_def is_ascii_def is_tibetan_char_def)

text \<open>
  Claim C5, as amended. Sanitization is a function of the label (and of the Unicode
  tables), and its result is never empty. When NFC is idempotent and puts no
  whitespace at an end of a string that has none there (both hold of Unicode's NFC),
  sanitizing is idempotent at every label whose sanitized form holds only characters
  that the filter keeps; \<open>Misc\<close> is a fixed point.
\<close>

theorem sanitize_idempotent_when_kept:
  "((\<forall>s. py_nfc tabs (py_nfc tabs s) = py_nfc tabs s)
      \<and> (\<forall>s. py_strip s = s \<longrightarrow> py_strip (py_nfc tabs s) = py_nfc tabs s)
      \<and> list_all (keep_char tabs) (sanitize tabs L)
     \<longrightarrow> sanitize tabs (sanitize tabs L) = sanitize tabs L)
   \<and> sanitize tabs L \<noteq> []
   \<and> sanitize tabs (py ''Misc'') = py ''Misc''"
  using sanitize_idem_general [of tabs L] sanitize_nonempty [of tabs L] sanitize_Misc [of tabs]
  by blast

theorem sanitize_idempotent_when_kept_witness:
  "sanitize devanagari_tables (py '' Long-Life Prayers! '' @ [0x0F56, 0x0F7C, 0x0F51, 0x0915])
     = py ''Long-Life Prayers '' @ [0x0F56, 0x0F7C, 0x0F51, 0x0915]
   \<and> sanitize devanagari_tables (py ''Long-Life Prayers '' @ [0x0F56, 0x0F7C, 0x0F51, 0x0915])
     = py ''Long-Life Prayers '' @ [0x0F56, 0x0F7C, 0x0F51, 0x0915]"
proof -
  let ?L = "py '' Long-Life Prayers! '' @ [0x0F56, 0x0F7C, 0x0F51, 0x0915]"
  let ?S = "py ''Long-Life Prayers '' @ [0x0F56, 0x0F7C, 0x0F51, 0x0915]"
  have v: "sanitize devanagari_tables ?L = ?S"
    by (simp add: sanitize_def devanagari_tables_def nfc_devanagari_def keep_char_def
        py_isalnum_def py_strip_def py_isspace_def py_nfc_def is_ascii_def is_tibetan_char_def
        py_def)
  have k: "list_all (keep_char devanagari_tables) (sanitize devanagari_tables ?L)"
    unfolding v
    by (simp add: devanagari_tables_def keep_char_def py_isalnum_def is_tibetan_char_def py_def)
  have i: "\<forall>s. py_nfc devanagari_tables (py_nfc devanagari_tables s) = py_nfc devanagari_tables s"
    by (simp add: nfc_devanagari_all nfc_devanagari_idem)
  have e: "\<forall>s. py_strip s = s \<longrightarrow>
      py_strip (py_nfc devanagari_tables s) = py_nfc devanagari_tables s"
    by (simp add: nfc_devanagari_all nfc_devanagari_strip)
  from sanitize_idempotent_when_kept [of devanagari_tables ?L] i e k
  have "sanitize devanagari_tables (sanitize devanagari_tables ?L) = sanitize devanagari_tables ?L"
    by blast
  with v show ?thesis by simp
qed

section \<open>Properties of the completion poller\<close>

lemma max_loop_mem: "max_loop snap ps best k = Inr t \<Longrightarrow> t = best \<or> t \<in> set ps"
  by (induction ps arbitrary: best k) (auto split: option.splits if_splits)

lemma max_by_mtime_mem: "max_by_mtime snap ps = Inr t \<Longrightarrow> t \<in> set ps"
  by (auto simp: max_by_mtime_def split: list.splits option.splits dest: max_loop_mem)


lemma wait_loop_timeout:
  assumes "\<forall>t. now \<le> t \<and> t < start + timeout \<longrightarrow> \<not> ready tabs (sink t) before_set"
  shows "wait_loop tabs sink before_set timeout start now = Inr None"
  using assms
proof (induction now rule: measure_induct_rule [where f = "\<lambda>now. start + timeout - now"])
  case (less now)
  show ?case
  proof (cases "now - start < timeout")
    case False
    then show ?thesis by (subst wait_loop.simps) simp
  next
    case True
    then have lt: "now < start + timeout" by simp
    with less.prems have nr: "\<not> ready tabs (sink now) before_set" by simp
    have "wait_loop tabs sink before_set timeout start (now + 1) = Inr None"
      using less.prems lt by (intro less.IH) auto
    then show ?thesis
      using True nr by (subst wait_loop.simps) (auto simp: ready_def Let_def)
  qed
qed

lemma wait_loop_step:
  assumes "wait_loop tabs sink before_set timeout start now = Inr (Some p)"
  shows "now - start < timeout
      \<and> ((p \<in> set (new_epubs tabs (sink now) before_set) \<and> \<not> temp_present tabs (sink now)
           \<and> stable (sink now) (sink (now + 1)) p)
         \<or> wait_loop tabs sink before_set timeout start (now + 1) = Inr (Some p)
         \<or> wait_loop tabs sink before_set timeout start (now + 2) = Inr (Some p))"
  using assms
  by (subst (asm) wait_loop.simps)
    (auto simp: Let_def stable_def split: if_splits sum.splits option.splits
      dest: max_by_mtime_mem)

lemma wait_loop_returns:
  assumes "wait_loop tabs sink before_set timeout start now = Inr (Some p)"
  shows "\<exists>t. now \<le> t \<and> t - start < timeout
            \<and> p \<in> set (new_epubs tabs (sink t) before_set)
            \<and> \<not> temp_present tabs (sink t)
            \<and> stable (sink t) (sink (t + 1)) p"
  using assms
proof (induction now rule: measure_induct_rule [where f = "\<lambda>now. start + timeout - now"])
  case (less now)
  from wait_loop_step [OF less.prems] have lt: "now - start < timeout"
    and cases: "(p \<in> set (new_epubs tabs (sink now) before_set) \<and> \<not> temp_present tabs (sink now)
           \<and> stable (sink now) (sink (now + 1)) p)
         \<or> wait_loop tabs sink before_set timeout start (now + 1) = Inr (Some p)
         \<or> wait_loop tabs sink before_set timeout start (now + 2) = Inr (Some p)"
    by simp_all
  from lt have m1: "start + timeout - (now + 1) < start + timeout - now"
    and m2: "start + timeout - (now + 2) < start + timeout - now"
    by arith+
  from cases show ?case
  proof (elim disjE)
    assume "p \<in> set (new_epubs tabs (sink now) before_set) \<and> \<not> temp_present tabs (sink now)
           \<and> stable (sink now) (sink (now + 1)) p"
    with lt show ?thesis by (intro exI [of _ now]) simp
  next
    assume "wait_loop tabs sink before_set timeout start (now + 1) = Inr (Some p)"
    with less.IH [OF m1] obtain t where "now + 1 \<le> t" "t - start < timeout"
      "p \<in> set (new_epubs tabs (sink t) before_set)" "\<not> temp_present tabs (sink t)"
      "stable (sink t) (sink (t + 1)) p"
      by auto
    then show ?thesis by (intro exI [of _ t]) simp
  next
    assume "wait_loop tabs sink before_set timeout start (now + 2) = Inr (Some p)"
    with less.IH [OF m2] obtain t where "now + 2 \<le> t" "t - start < timeout"
      "p \<in> set (new_epubs tabs (sink t) before_set)" "\<not> temp_present tabs (sink t)"
      "stable (sink t) (sink (t + 1)) p"
      by auto
    then show ?thesis by (intro exI [of _ t]) simp
  qed
qed

lemma new_epubs_iff:
  "p \<in> set (new_epubs tabs snap before_set)
     \<longleftrightarrow> p \<in> set (listing snap) \<and> p \<notin> set before_set
         \<and> py_lower tabs (py_suffix (path_name p)) = py ''.epub''"
  by (auto simp: new_epubs_def has_suffix_def)

lemma temp_present_iff:
  "temp_present tabs snap
     \<longleftrightarrow> (\<exists>q \<in> set (listing snap). py_lower tabs (py_suffix (path_name q)) = py ''.crdownload'')"
  by (simp add: temp_present_def list_ex_iff has_suffix_def)

text \<open>
  Claim C3. Whatever the snapshot taken before the click and whatever the timeout:
  when at no clock reading of the timeout window the listing holds a new file with
  the target extension while holding no file with the in-progress suffix, the poller
  returns \<open>None\<close>; and when it returns a path, then at some reading of the window the
  path was a new file with the target extension in a listing without in-progress
  file, its size was read, and one interval later the file still existed with the
  same size.
\<close>

theorem wait_for_download_sound:
  "((\<forall>t. start \<le> t \<and> t < start + timeout \<longrightarrow>
        \<not> ((\<exists>p \<in> set (listing (sink t)). p \<notin> set before_set
                \<and> py_lower tabs (py_suffix (path_name p)) = py ''.epub'')
           \<and> \<not> (\<exists>q \<in> set (listing (sink t)).
                   py_lower tabs (py_suffix (path_name q)) = py ''.crdownload'')))
      \<longrightarrow> wait_for_download tabs sink before_set timeout start = Inr None)
   \<and> (wait_for_download tabs sink before_set timeout start = Inr (Some p) \<longrightarrow>
        (\<exists>t size1. start \<le> t \<and> t < start + timeout
           \<and> p \<in> set (listing (sink t)) \<and> p \<notin> set before_set
           \<and> py_lower tabs (py_suffix (path_name p)) = py ''.epub''
           \<and> \<not> (\<exists>q \<in> set (listing (sink t)).
                   py_lower tabs (py_suffix (path_name q)) = py ''.crdownload'')
           \<and> st_size (sink t) p = Some size1
           \<and> present (sink (t + 1)) p
           \<and> st_size (sink (t + 1)) p = Some size1))"
proof (intro conjI impI)
  assume h: "\<forall>t. start \<le> t \<and> t < start + timeout \<longrightarrow>
        \<not> ((\<exists>p \<in> set (listing (sink t)). p \<notin> set before_set
                \<and> py_lower tabs (py_suffix (path_name p)) = py ''.epub'')
           \<and> \<not> (\<exists>q \<in> set (listing (sink t)).
                   py_lower tabs (py_suffix (path_name q)) = py ''.crdownload''))"
  have "\<forall>t. start \<le> t \<and> t < start + timeout \<longrightarrow> \<not> ready tabs (sink t) before_set"
  proof (intro allI impI)
    fix t assume t: "start \<le> t \<and> t < start + timeout"
    show "\<not> ready tabs (sink t) before_set"
    proof
      assume "ready tabs (sink t) before_set"
      then have ne: "new_epubs tabs (sink t) before_set \<noteq> []"
        and nt: "\<not> temp_present tabs (sink t)"
        by (simp_all add: ready_def)
      from ne have "last (new_epubs tabs (sink t) before_set)
          \<in> set (new_epubs tabs (sink t) before_set)"
        by (rule last_in_set)
      with nt h t show False
        unfolding new_epubs_iff temp_present_iff by blast
    qed
  qed
  then show "wait_for_download tabs sink before_set timeout start = Inr None"
    unfolding wait_for_download_def by (rule wait_loop_timeout)
next
  assume "wait_for_download tabs sink before_set timeout start = Inr (Some p)"
  then have "wait_loop tabs sink before_set timeout start start = Inr (Some p)"
    by (simp add: wait_for_download_def)
  from wait_loop_returns [OF this] obtain t where t: "start \<le> t" "t - start < timeout"
    "p \<in> set (new_epubs tabs (sink t) before_set)" "\<not> temp_present tabs (sink t)"
    "stable (sink t) (sink (t + 1)) p"
    by blast
  from t(5) obtain size1 where "st_size (sink t) p = Some size1" "present (sink (t + 1)) p"
    "st_size (sink (t + 1)) p = Some size1"
    by (auto simp: stable_def split: option.splits)
  moreover from t(1,2) have "t < start + timeout" by simp
  ultimately show "\<exists>t size1. start \<le> t \<and> t < start + timeout
           \<and> p \<in> set (listing (sink t)) \<and> p \<notin> set before_set
           \<and> py_lower tabs (py_suffix (path_name p)) = py ''.epub''
           \<and> \<not> (\<exists>q \<in> set (listing (sink t)).
                   py_lower tabs (py_suffix (path_name q)) = py ''.crdownload'')
           \<and> st_size (sink t) p = Some size1
           \<and> present (sink (t + 1)) p
           \<and> st_size (sink (t + 1)) p = Some size1"
    using t(1,3,4) unfolding new_epubs_iff temp_present_iff by blast
qed

lemma snap_simps:
  "listing (snap_of fs) = map (\<lambda>f. [py ''out'', fst f]) fs"
  "st_size (snap_of fs) = map_of (map (\<lambda>f. ([py ''out'', fst f], snd f)) fs)"
  "present (snap_of fs) = (\<lambda>p. p \<in> set (map (\<lambda>f. [py ''out'', fst f]) fs))"
  "st_mtime (snap_of fs) = (\<lambda>p. if p \<in> set (map (\<lambda>f. [py ''out'', fst f]) fs) then Some 7 else None)"
  by (simp_all add: snap_of_def)

lemma suffix_values:
  "py_lower tabs (py_suffix (py ''old.epub'')) = py ''.epub''"
  "py_lower tabs (py_suffix (py ''a.epub'')) = py ''.epub''"
  "py_lower tabs (py_suffix (py ''a.epub.crdownload'')) = py ''.crdownload''"
  by (simp_all add: py_lower_def py_suffix_def py_rfind_def is_ascii_def py_def)

theorem wait_for_download_sound_witness:
  "wait_for_download devanagari_tables stuck_sink [[py ''out'', py ''old.epub'']] 240 0 = Inr None
   \<and> wait_for_download devanagari_tables finishing_sink [[py ''out'', py ''old.epub'']] 240 0
       = Inr (Some [py ''out'', py ''a.epub''])
   \<and> (\<exists>t size1. st_size (finishing_sink t) [py ''out'', py ''a.epub''] = Some size1
         \<and> st_size (finishing_sink (t + 1)) [py ''out'', py ''a.epub''] = Some size1)"
proof -
  let ?before = "[[py ''out'', py ''old.epub'']]"
  have ne: "py ''.epub'' \<noteq> py ''.crdownload''" by (simp add: py_def)
  have stuck: "\<forall>t. 0 \<le> t \<and> t < 0 + 240 \<longrightarrow>
        \<not> ((\<exists>p \<in> set (listing (stuck_sink t)). p \<notin> set ?before
                \<and> py_lower devanagari_tables (py_suffix (path_name p)) = py ''.epub'')
           \<and> \<not> (\<exists>q \<in> set (listing (stuck_sink t)).
                   py_lower devanagari_tables (py_suffix (path_name q)) = py ''.crdownload''))"
    by (simp add: stuck_sink_def snap_simps path_name_def suffix_values)
  have none: "wait_for_download devanagari_tables stuck_sink ?before 240 0 = Inr None"
    using wait_for_download_sound [of 0 240 stuck_sink ?before devanagari_tables] stuck by blast
  have fin: "wait_for_download devanagari_tables finishing_sink ?before 240 0
       = Inr (Some [py ''out'', py ''a.epub''])"
    unfolding wait_for_download_def
    apply (subst wait_loop.simps)
    apply (simp add: finishing_sink_def snap_simps new_epubs_def temp_present_def has_suffix_def
        path_name_def suffix_values ne)
    apply (subst wait_loop.simps)
    apply (simp add: finishing_sink_def snap_simps new_epubs_def temp_present_def has_suffix_def
        path_name_def suffix_values ne)
    apply (subst wait_loop.simps)
    apply (simp add: finishing_sink_def snap_simps new_epubs_def temp_present_def has_suffix_def
        path_name_def suffix_values ne max_by_mtime_def)
    apply (simp add: py_def)
    done
  from wait_for_download_sound [of 0 240 finishing_sink ?before devanagari_tables "[py ''out'', py ''a.epub'']"] fin
  have "\<exists>t size1. st_size (finishing_sink t) [py ''out'', py ''a.epub''] = Some size1
         \<and> st_size (finishing_sink (t + 1)) [py ''out'', py ''a.epub''] = Some size1"
    by blast
  with none fin show ?thesis by simp
qed

section \<open>Properties of the run coordinator\<close>

lemma visited_move_to_subfolder:
  "move_to_subfolder tabs out w d sub = Inr (p, w') \<Longrightarrow> visited w' = visited w"
  by (auto simp: move_to_subfolder_def Let_def split: if_splits sum.splits)

lemma visited_copy_to_language_dir:
  "visited (copy_to_language_dir out w p extra) = visited w"
  by (auto simp: copy_to_language_dir_def split: option.splits sum.splits)

lemma visited_fetch_tibetan: "visited (fetch_tibetan out w extra tib) = visited w"
  by (auto simp: fetch_tibetan_def split: option.splits sum.splits prod.splits)

lemma visited_download:
  "download_epub_from_text_page tabs out browser url sub w = Inr (r, w')
    \<Longrightarrow> visited w' = visited w @ [url]"
  by (auto simp: download_epub_from_text_page_def Let_def visited_fetch_tibetan
      visited_copy_to_language_dir
      split: if_splits sum.splits option.splits prod.splits
      dest!: visited_move_to_subfolder)

lemma visited_copy_to_extra:
  "copy_to_extra tabs out p extra w = Inr w' \<Longrightarrow> visited w' = visited w"
  by (auto simp: copy_to_extra_def Let_def split: sum.splits)

lemma visited_copy_extras:
  "copy_extras tabs out p extras w = Inr w' \<Longrightarrow> visited w' = visited w"
  by (induction extras arbitrary: w) (auto split: sum.splits dest: visited_copy_to_extra)

lemma scrape_item_empty:
  "scrape_item tabs out browser (url, []) (stats, w) = Inr (stats\<lparr>failed := failed stats + 1\<rparr>, w)"
  by (simp add: scrape_item_def)

lemma scrape_item_counts:
  assumes "scrape_item tabs out browser (url, subs) (stats, w) = Inr (stats', w')"
  shows "total stats' = total stats"
    and "(success stats' = success stats + 1 \<and> failed stats' = failed stats \<and> subs \<noteq> [])
       \<or> (success stats' = success stats \<and> failed stats' = failed stats + 1)"
    and "visited w' = visited w @ (if subs = [] then [] else [url])"
proof -
  have "total stats' = total stats
    \<and> ((success stats' = success stats + 1 \<and> failed stats' = failed stats \<and> subs \<noteq> [])
       \<or> (success stats' = success stats \<and> failed stats' = failed stats + 1))
    \<and> visited w' = visited w @ (if subs = [] then [] else [url])"
  proof (cases subs)
    case Nil
    with assms show ?thesis by (auto simp: scrape_item_def)
  next
    case (Cons primary extras)
    from assms Cons obtain r w1 where
      d: "download_epub_from_text_page tabs out browser url primary w = Inr (r, w1)"
      by (auto simp: scrape_item_def split: sum.splits)
    note v = visited_download [OF d]
    show ?thesis
    proof (cases r)
      case None
      with assms Cons d v show ?thesis by (auto simp: scrape_item_def)
    next
      case (Some final_path)
      with assms Cons d obtain w2 where
        c: "copy_extras tabs out final_path extras w1 = Inr w2" and "w' = w2"
        and "stats' = stats\<lparr>success := success stats + 1\<rparr>"
        by (auto simp: scrape_item_def split: sum.splits)
      with v visited_copy_extras [OF c] Cons show ?thesis by simp
    qed
  qed
  then show "total stats' = total stats"
    and "(success stats' = success stats + 1 \<and> failed stats' = failed stats \<and> subs \<noteq> [])
       \<or> (success stats' = success stats \<and> failed stats' = failed stats + 1)"
    and "visited w' = visited w @ (if subs = [] then [] else [url])"
    by simp_all
qed

lemma scrape_loop_counts:
  assumes "scrape_loop tabs out browser items (stats, w) = Inr (stats', w')"
  shows "total stats' = total stats
    \<and> success stats' + failed stats' = success stats + failed stats + length items
    \<and> failed stats + length (filter (\<lambda>i. snd i = []) items) \<le> failed stats'
    \<and> visited w' = visited w @ map fst (filter (\<lambda>i. snd i \<noteq> []) items)"
  using assms
proof (induction items arbitrary: stats w)
  case Nil
  then show ?case by simp
next
  case (Cons item items)
  obtain url subs where item: "item = (url, subs)" by (cases item)
  from Cons.prems obtain st1 w1 where
    step: "scrape_item tabs out browser (url, subs) (stats, w) = Inr (st1, w1)"
    and rest: "scrape_loop tabs out browser items (st1, w1) = Inr (stats', w')"
    by (auto simp: item split: sum.splits)
  note c = scrape_item_counts [OF step]
  note r = Cons.IH [OF rest]
  have "subs = [] \<Longrightarrow> failed st1 = failed stats + 1"
    using step by (auto simp: scrape_item_def)
  with c r show ?case by (auto simp: item)
qed

text \<open>
  Claim C7. A collected document whose list of topic labels is empty is counted as
  failed, and the orchestration is not called for it: the step of the loop adds one
  to \<open>failed\<close> and leaves the world as it is (no visit, no file operation), the loop
  goes on with the remaining documents, and in a run that completes the pages
  visited are those of the documents that have a label.
\<close>

theorem empty_topics_never_visited:
  "scrape_item tabs out browser (url, []) (stats, w) = Inr (stats\<lparr>failed := failed stats + 1\<rparr>, w)
   \<and> scrape_loop tabs out browser ((url, []) # rest) (stats, w)
       = scrape_loop tabs out browser rest (stats\<lparr>failed := failed stats + 1\<rparr>, w)
   \<and> (scrape_all tabs out browser items w = Inr (stats', w') \<longrightarrow>
        visited w' = visited w @ map fst (filter (\<lambda>i. snd i \<noteq> []) items)
        \<and> length (filter (\<lambda>i. snd i = []) items) \<le> failed stats')"
proof (intro conjI impI)
  show "scrape_item tabs out browser (url, []) (stats, w)
      = Inr (stats\<lparr>failed := failed stats + 1\<rparr>, w)"
    by (rule scrape_item_empty)
  then show "scrape_loop tabs out browser ((url, []) # rest) (stats, w)
       = scrape_loop tabs out browser rest (stats\<lparr>failed := failed stats + 1\<rparr>, w)"
    by simp
next
  assume "scrape_all tabs out browser items w = Inr (stats', w')"
  from scrape_loop_counts [OF this [unfolded scrape_all_def]]
  show "visited w' = visited w @ map fst (filter (\<lambda>i. snd i \<noteq> []) items)"
    and "length (filter (\<lambda>i. snd i = []) items) \<le> failed stats'"
    by simp_all
qed

theorem empty_topics_never_visited_witness:
  "scrape_all devanagari_tables [py ''out''] offline_browser
      [(py ''https://h/b'', []), (py ''https://h/c'', [py ''Aspirations''])] sink_only
     = Inr (\<lparr>total = 2, success = 0, failed = 2\<rparr>, sink_only\<lparr>visited := [py ''https://h/c'']\<rparr>)"
proof -
  let ?items = "[(py ''https://h/b'', []), (py ''https://h/c'', [py ''Aspirations''])]"
  have ne: "py ''https://h/c'' \<noteq> py ''https://h/a''" by (simp add: py_def)
  have run: "scrape_all devanagari_tables [py ''out''] offline_browser ?items sink_only
     = Inr (\<lparr>total = 2, success = 0, failed = 2\<rparr>, sink_only\<lparr>visited := [py ''https://h/c'']\<rparr>)"
    by (simp add: scrape_all_def scrape_item_def download_epub_from_text_page_def
        offline_browser_def ne sink_only_def)
  from empty_topics_never_visited [of devanagari_tables "[py ''out'']" offline_browser
      "py ''https://h/b''" "\<lparr>total = 2, success = 0, failed = 0\<rparr>" sink_only
      "[(py ''https://h/c'', [py ''Aspirations''])]" ?items
      "\<lparr>total = 2, success = 0, failed = 2\<rparr>" "sink_only\<lparr>visited := [py ''https://h/c'']\<rparr>"]
  have "scrape_all devanagari_tables [py ''out''] offline_browser ?items sink_only
      = Inr (\<lparr>total = 2, success = 0, failed = 2\<rparr>, sink_only\<lparr>visited := [py ''https://h/c'']\<rparr>)
    \<longrightarrow> visited (sink_only\<lparr>visited := [py ''https://h/c'']\<rparr>)
        = visited sink_only @ map fst (filter (\<lambda>i. snd i \<noteq> []) ?items)"
    by blast
  with run show ?thesis by simp
qed

text \<open>
  Claim C8 asks that after the run \<open>total\<close> is the number of collected documents and
  \<open>success + failed = total\<close>, every document adding one to exactly one counter, and
  that the failure of one document never stops the processing of the remaining ones.
  The code does not keep the last part. \<open>driver.get(url)\<close> at line 229 stands outside
  every \<open>try\<close>, unlike the steps after it (lines 300-344), whose exceptions become
  \<open>return False\<close>. When it raises for the first of two documents, the exception leaves
  \<open>_download_epub_from_text_page\<close> and \<open>scrape_all\<close>: the second document is not
  processed, nothing is counted and no totals are reported.
\<close>

theorem run_aborts_on_exception:
  "scrape_all devanagari_tables [py ''out''] offline_browser
      [(py ''https://h/a'', [py ''Dedications'']), (py ''https://h/c'', [py ''Aspirations''])]
      sink_only
     = Inl WebDriverException"
  by (simp add: scrape_all_def scrape_item_def download_epub_from_text_page_def
      offline_browser_def)

text \<open>
  What the loop does keep: after a run that completes, \<open>total\<close> is the number of
  collected documents and \<open>success + failed = total\<close>; a document whose step returns
  adds one to exactly one of the two counters, and the loop goes on with the remaining
  documents whichever counter it was.
\<close>

lemma completed_run_counts:
  "(scrape_all tabs out browser items w = Inr (stats', w') \<longrightarrow>
      total stats' = length items \<and> success stats' + failed stats' = total stats')
   \<and> (scrape_item tabs out browser (url, subs) (stats, w) = Inr (stats1, w1) \<longrightarrow>
        total stats1 = total stats
        \<and> ((success stats1 = success stats + 1 \<and> failed stats1 = failed stats)
           \<or> (success stats1 = success stats \<and> failed stats1 = failed stats + 1))
        \<and> scrape_loop tabs out browser ((url, subs) # rest) (stats, w)
            = scrape_loop tabs out browser rest (stats1, w1))"
proof (intro conjI impI)
  assume "scrape_all tabs out browser items w = Inr (stats', w')"
  from scrape_loop_counts [OF this [unfolded scrape_all_def]]
  show "total stats' = length items" and "success stats' + failed stats' = total stats'"
    by simp_all
next
  assume s: "scrape_item tabs out browser (url, subs) (stats, w) = Inr (stats1, w1)"
  from scrape_item_counts [OF s]
  show "total stats1 = total stats"
    and "(success stats1 = success stats + 1 \<and> failed stats1 = failed stats)
           \<or> (success stats1 = success stats \<and> failed stats1 = failed stats + 1)"
    by auto
  from s show "scrape_loop tabs out browser ((url, subs) # rest) (stats, w)
            = scrape_loop tabs out browser rest (stats1, w1)"
    by simp
qed

section \<open>Properties of placement\<close>










lemma copy2_result:
  assumes "copy2 fs src t = Inr fs'" and "fmlookup fs t = None" and "t \<noteq> []"
  shows "\<exists>b. fmlookup fs src = Some (File b) \<and> fs' = fmupd t (File b) fs"
proof -
  have "\<not> is_dir fs t" using assms(2,3) by (simp add: is_dir_def)
  with assms(1) show ?thesis
    by (auto simp: copy2_def Let_def split: option.splits node.splits if_splits)
qed


lemma replace_result:
  assumes "replace_file fs src t = Inr fs'"
  shows "\<exists>b. fmlookup fs src = Some (File b) \<and> fs' = fmupd t (File b) (fmdrop src fs)"
  using assms
  by (auto simp: replace_file_def split: option.splits node.splits if_splits)

















lemma completed_run_counts_example:
  "\<exists>stats' w'.
      scrape_all devanagari_tables [py ''out''] (saving_browser bilingual_page)
        [(py ''https://h/a'', [py ''Dedications'', py ''Aspirations'']), (py ''https://h/b'', [])]
        sink_only = Inr (stats', w')
    \<and> total stats' = 2 \<and> success stats' = 1 \<and> failed stats' = 1
    \<and> success stats' + failed stats' = total stats'"
proof -
  let ?items = "[(py ''https://h/a'', [py ''Dedications'', py ''Aspirations'']),
      (py ''https://h/b'', [])]"
  let ?run = "scrape_all devanagari_tables [py ''out''] (saving_browser bilingual_page) ?items
      sink_only"
  have "\<exists>stats' w'. ?run = Inr (stats', w') \<and> success stats' = 1 \<and> failed stats' = 1"
    by (simp add: scrape_all_def scrape_item_def download_epub_from_text_page_def
        saving_browser_def
        extra_language_dir_def classify_def bilingual_page_def is_tibetan_page_def
        save_download_def sink_only_def path_exists_def
        move_to_subfolder_def sanitize_def keep_char_def py_isalnum_def py_strip_def py_isspace_def
        py_nfc_def is_ascii_def path_div_def mkdir_parents_def unique_path_def
        path_name_def replace_file_def is_dir_def copy_to_language_dir_def copy2_def
        fetch_tibetan_def copy_to_extra_def Let_def py_def)
  then obtain stats' w' where r: "?run = Inr (stats', w')"
    and s: "success stats' = 1" "failed stats' = 1"
    by blast
  from completed_run_counts [of devanagari_tables "[py ''out'']" "saving_browser bilingual_page"
      ?items sink_only stats' w'] r
  have "total stats' = length ?items \<and> success stats' + failed stats' = total stats'"
    by blast
  then have t: "total stats' = 2" "success stats' + failed stats' = total stats'"
    by simp_all
  from r s t show ?thesis by blast
qed

end
